theory Spec2Isabelle
  imports Complex_Main "HOL-Library.Sublist" "HOL-Library.AList"
begin

section \<open>Configuration (config.ts)\<close>

text \<open>
  The object \<open>config\<close> of config.ts has five fields. The sync engine also reads
  \<open>config.charsFromPreviousParagraph\<close>, which config.ts does not define: in JavaScript
  the read yields \<open>undefined\<close>, and every comparison with \<open>undefined\<close> is false. The
  field is therefore an option, \<open>None\<close> standing for \<open>undefined\<close>.
\<close>

record AIConfig =
  embeddingModel :: string
  chatModel :: string
  minParagraphSize :: nat
  maxParagraphSize :: nat
  minLengthBeforeAutoSearch :: nat
  charsFromPreviousParagraph :: "nat option"

definition config :: AIConfig where
  "config = \<lparr> embeddingModel = ''text-embedding-3-small'',
              chatModel = ''gpt-4o-mini'',
              minParagraphSize = 200,
              maxParagraphSize = 600,
              minLengthBeforeAutoSearch = 10,
              charsFromPreviousParagraph = None \<rparr>"

section \<open>The record store\<close>

type_synonym vector = "int list"
type_synonym frontmatter = "(string \<times> string) list"

text \<open>A row of the table \<open>document\<close> and a row of the table \<open>document_section\<close>.\<close>

record document =
  doc_id :: nat
  path :: string
  checksum :: "string option"
  meta :: frontmatter
  public :: bool

record document_section =
  document_id :: nat
  content :: string
  token_count :: nat
  embedding :: vector

record store =
  documents :: "document list"
  sections :: "document_section list"
  next_id :: nat

text \<open>
  The steps of the sync engine that can fail, in the order of generate-embeddings.ts: the
  lookup of a document by path, the read of the file, the update of the public flag, the
  deletion of a document's sections, the parsing and chunking of the text, the upsert
  with a null checksum, the embedding call, the insertion of a section, the update of
  the checksum, the full scan and the deletion of a document by path. All but the
  parsing are requests to the vault, the record store or the embedding provider.
\<close>

datatype event =
    SelectDocument string
  | CachedRead string
  | UpdatePublic nat bool
  | DeleteSections nat
  | ParseMarkdown string
  | UpsertDocument string frontmatter bool
  | CreateEmbedding string
  | InsertSection nat string nat vector
  | UpdateChecksum nat string
  | SelectAllDocuments
  | DeleteDocument string

text \<open>
  The world the engine runs in: the store and the log of the steps taken so far. Whether
  a step fails is decided by an oracle from the log and the step, so that any pattern of
  failures can be written. A request that fails leaves the store as it was. Inside the
  \<open>try\<close> of the per-document pass an error returned and an exception thrown end alike;
  in the reconciliation pass a failure is the error the client returns.
\<close>

record world =
  st :: store
  trace :: "event list"

type_synonym failures = "event list \<Rightarrow> event \<Rightarrow> bool"

definition request :: "failures \<Rightarrow> event \<Rightarrow> world \<Rightarrow> bool \<times> world" where
  "request fails ev w = (\<not> fails (trace w) ev, w\<lparr>trace := trace w @ [ev]\<rparr>)"

definition find_document :: "string \<Rightarrow> store \<Rightarrow> document option" where
  "find_document p s = find (\<lambda>d. path d = p) (documents s)"

definition update_public :: "nat \<Rightarrow> bool \<Rightarrow> store \<Rightarrow> store" where
  "update_public i b s =
     s\<lparr>documents := map (\<lambda>d. if doc_id d = i then d\<lparr>public := b\<rparr> else d) (documents s)\<rparr>"

definition delete_sections :: "nat \<Rightarrow> store \<Rightarrow> store" where
  "delete_sections i s = s\<lparr>sections := filter (\<lambda>x. document_id x \<noteq> i) (sections s)\<rparr>"

text \<open>
  The upsert on conflict by path: an existing row keeps its identity and gets a null
  checksum, the new metadata and the new flag; otherwise a row with a fresh identity is
  added. The row is returned, as \<open>.select().limit(1).single()\<close> does.
\<close>

definition upsert_document :: "string \<Rightarrow> frontmatter \<Rightarrow> bool \<Rightarrow> store \<Rightarrow> document \<times> store" where
  "upsert_document p fm b s =
     (case find_document p s of
        Some d \<Rightarrow>
          (d\<lparr>checksum := None, meta := fm, public := b\<rparr>,
           s\<lparr>documents := map (\<lambda>x. if path x = p
                                     then x\<lparr>checksum := None, meta := fm, public := b\<rparr>
                                     else x) (documents s)\<rparr>)
      | None \<Rightarrow>
          (let d = \<lparr>doc_id = next_id s, path = p, checksum = None, meta = fm, public = b\<rparr>
           in (d, s\<lparr>documents := documents s @ [d], next_id := Suc (next_id s)\<rparr>)))"

definition insert_section :: "document_section \<Rightarrow> store \<Rightarrow> store" where
  "insert_section x s = s\<lparr>sections := sections s @ [x]\<rparr>"

definition update_checksum :: "nat \<Rightarrow> string \<Rightarrow> store \<Rightarrow> store" where
  "update_checksum i c s =
     s\<lparr>documents := map (\<lambda>d. if doc_id d = i then d\<lparr>checksum := Some c\<rparr> else d) (documents s)\<rparr>"

text \<open>Deleting a document by path removes its sections with it (cascading delete).\<close>

definition delete_document :: "string \<Rightarrow> store \<Rightarrow> store" where
  "delete_document p s =
     s\<lparr>documents := filter (\<lambda>d. path d \<noteq> p) (documents s),
       sections := filter (\<lambda>x. document_id x \<notin> doc_id ` {d \<in> set (documents s). path d = p})
                     (sections s)\<rparr>"

definition on_store :: "(store \<Rightarrow> store) \<Rightarrow> world \<Rightarrow> world" where
  "on_store f w = w\<lparr>st := f (st w)\<rparr>"

section \<open>The collaborators of the sync engine\<close>

text \<open>
  What the engine calls and src/ does not hold: Node's \<open>path.normalize\<close> and SHA-256,
  the vault's file contents, the embedding provider's answer, and the functions
  \<open>parseMarkdown\<close> and \<open>smartChunkParagraphs\<close> of ./utils. They are parameters.
  \<open>serialize\<close> is the rendering of front-matter fields used by \<open>createChunkContext\<close>.
\<close>

record sys =
  normalize :: "string \<Rightarrow> string"
  sha256 :: "string \<Rightarrow> string"
  cachedRead :: "string \<Rightarrow> string"
  parseMarkdown :: "string \<Rightarrow> string \<times> frontmatter"
  smartChunkParagraphs :: "string \<Rightarrow> nat \<Rightarrow> nat \<Rightarrow> string list"
  serialize :: "frontmatter \<Rightarrow> string"
  createEmbedding :: "string \<Rightarrow> nat \<times> vector"

text \<open>
  Modelled from the spec: \<open>createChunkContext\<close> of ./utils is not under src/. The spec
  (4.3) composes the embedding input of the serialized front-matter fields, the path
  among them, then the preceding tail, then the chunk's own text.
\<close>

definition createChunkContext :: "sys \<Rightarrow> string \<Rightarrow> frontmatter \<Rightarrow> string \<Rightarrow> string \<Rightarrow> string" where
  "createChunkContext sy chunk fm p precedingTail =
     serialize sy (AList.update ''path'' p fm) @ precedingTail @ chunk"

section \<open>isFileInDirectories\<close>

fun starts_with_any :: "string \<Rightarrow> string list \<Rightarrow> bool" where
  "starts_with_any p [] = False"
| "starts_with_any p (directory # ds) = (if prefix directory p then True else starts_with_any p ds)"

definition isFileInDirectories :: "sys \<Rightarrow> string \<Rightarrow> string list \<Rightarrow> bool" where
  "isFileInDirectories sy filePath directories =
     starts_with_any (normalize sy filePath) (map (normalize sy) directories)"

section \<open>generateEmbeddings\<close>

record EmbeddingResult =
  successCount :: nat
  updatedCount :: nat
  errorCount :: nat
  deleteCount :: nat

text \<open>The body of a \<open>try\<close>: it ends normally or by a thrown exception.\<close>

datatype 'a attempt = Thrown | Done 'a

text \<open>
  Lines 149 to 162: the tail of the previous section sent along with section \<open>i\<close>. The
  slice is taken only when the previous section is strictly longer than the overlap.
\<close>

definition previousSectionChopped :: "AIConfig \<Rightarrow> string list \<Rightarrow> nat \<Rightarrow> string" where
  "previousSectionChopped cfg secs i =
     (case charsFromPreviousParagraph cfg of
        None \<Rightarrow> ''''
      | Some n \<Rightarrow>
          if i > 0 \<and> n > 0 then
            (let previousSection = secs ! (i - 1)
             in if length previousSection > n
                then drop (length previousSection - n) previousSection
                else '''')
          else '''')"

definition chunk_input :: "sys \<Rightarrow> AIConfig \<Rightarrow> frontmatter \<Rightarrow> string \<Rightarrow> string list \<Rightarrow> nat \<Rightarrow> string" where
  "chunk_input sy cfg fm p secs i =
     createChunkContext sy (secs ! i) fm p (previousSectionChopped cfg secs i)"

text \<open>Each section with the text embedded for it, in the order of the loop of line 146.\<close>

definition chunk_inputs :: "sys \<Rightarrow> AIConfig \<Rightarrow> frontmatter \<Rightarrow> string \<Rightarrow> string list \<Rightarrow> (string \<times> string) list" where
  "chunk_inputs sy cfg fm p secs =
     map (\<lambda>i. (secs ! i, chunk_input sy cfg fm p secs i)) [0..<length secs]"

text \<open>
  Lines 146 to 213: one embedding call and one insertion per section, in order; the
  first failure is rethrown and ends the loop.
\<close>

fun embed_sections :: "sys \<Rightarrow> failures \<Rightarrow> nat \<Rightarrow> (string \<times> string) list \<Rightarrow> world \<Rightarrow> bool \<times> world" where
  "embed_sections sy fails did [] w = (True, w)"
| "embed_sections sy fails did ((sec, inp) # rest) w =
     (case request fails (CreateEmbedding inp) w of
        (False, w1) \<Rightarrow> (False, w1)
      | (True, w1) \<Rightarrow>
          (case createEmbedding sy inp of
             (tokens, vec) \<Rightarrow>
               (case request fails (InsertSection did sec tokens vec) w1 of
                  (False, w2) \<Rightarrow> (False, w2)
                | (True, w2) \<Rightarrow>
                    embed_sections sy fails did rest
                      (on_store (insert_section
                         \<lparr>document_id = did, content = sec,
                          token_count = tokens, embedding = vec\<rparr>) w2))))"

text \<open>Lines 94 to 108: the sections of a document that exists already are deleted.\<close>

definition delete_old_sections :: "failures \<Rightarrow> document option \<Rightarrow> world \<Rightarrow> bool \<times> world" where
  "delete_old_sections fails existingDocument w =
     (case existingDocument of
        None \<Rightarrow> (True, w)
      | Some d \<Rightarrow>
          (case request fails (DeleteSections (doc_id d)) w of
             (False, w1) \<Rightarrow> (False, w1)
           | (True, w1) \<Rightarrow> (True, on_store (delete_sections (doc_id d)) w1)))"

text \<open>
  Lines 110 to 226: the text is parsed and chunked (\<open>parseMarkdown\<close>,
  \<open>smartChunkParagraphs\<close> and the assignment of the path may throw), the row is upserted
  with a null checksum, the sections are embedded and stored, and the checksum is set
  last.
\<close>

definition index_document ::
  "sys \<Rightarrow> failures \<Rightarrow> AIConfig \<Rightarrow> EmbeddingResult \<Rightarrow> world \<Rightarrow> string \<Rightarrow>
   string \<Rightarrow> string \<Rightarrow> bool \<Rightarrow> EmbeddingResult attempt \<times> world" where
  "index_document sy fails cfg r w p markdown cs isPublic =
     (case request fails (ParseMarkdown p) w of
        (False, w1) \<Rightarrow> (Thrown, w1)
      | (True, w1) \<Rightarrow>
          (let secs = smartChunkParagraphs sy (fst (parseMarkdown sy markdown))
                        (minParagraphSize cfg) (maxParagraphSize cfg);
               fm = AList.update ''path'' p (snd (parseMarkdown sy markdown))
           in case request fails (UpsertDocument p fm isPublic) w1 of
                (False, w2) \<Rightarrow> (Thrown, w2)
              | (True, w2) \<Rightarrow>
                  (case upsert_document p fm isPublic (st w2) of
                     (doc, s3) \<Rightarrow>
                       (case embed_sections sy fails (doc_id doc)
                               (chunk_inputs sy cfg fm p secs) (w2\<lparr>st := s3\<rparr>) of
                          (False, w4) \<Rightarrow> (Thrown, w4)
                        | (True, w4) \<Rightarrow>
                            (case request fails (UpdateChecksum (doc_id doc) cs) w4 of
                               (False, w5) \<Rightarrow> (Thrown, w5)
                             | (True, w5) \<Rightarrow>
                                 (Done (r\<lparr>successCount := successCount r + 1,
                                          updatedCount := updatedCount r + 1\<rparr>),
                                  on_store (update_checksum (doc_id doc) cs) w5))))))"

text \<open>Lines 94 to 226: the document is new or its content has changed.\<close>

definition reindex ::
  "sys \<Rightarrow> failures \<Rightarrow> AIConfig \<Rightarrow> EmbeddingResult \<Rightarrow> world \<Rightarrow> string \<Rightarrow> document option \<Rightarrow>
   string \<Rightarrow> string \<Rightarrow> bool \<Rightarrow> EmbeddingResult attempt \<times> world" where
  "reindex sy fails cfg r w p existingDocument markdown cs isPublic =
     (case delete_old_sections fails existingDocument w of
        (False, w1) \<Rightarrow> (Thrown, w1)
      | (True, w1) \<Rightarrow> index_document sy fails cfg r w1 p markdown cs isPublic)"

text \<open>Lines 43 to 226: the body of the \<open>try\<close> for one file.\<close>

definition process_file ::
  "sys \<Rightarrow> failures \<Rightarrow> AIConfig \<Rightarrow> string list \<Rightarrow> EmbeddingResult \<Rightarrow> world \<Rightarrow> string \<Rightarrow>
   EmbeddingResult attempt \<times> world" where
  "process_file sy fails cfg publicDirs r w p =
     (case request fails (SelectDocument p) w of
        (False, w1) \<Rightarrow> (Thrown, w1)
      | (True, w1) \<Rightarrow>
          (let existingDocument = find_document p (st w1)
           in case request fails (CachedRead p) w1 of
                (False, w2) \<Rightarrow> (Thrown, w2)
              | (True, w2) \<Rightarrow>
                  (let markdown = cachedRead sy p;
                       cs = sha256 sy markdown;
                       isPublic = isFileInDirectories sy p publicDirs
                   in case existingDocument of
                        None \<Rightarrow> reindex sy fails cfg r w2 p None markdown cs isPublic
                      | Some d \<Rightarrow>
                          if checksum d = Some cs then
                            (if public d = isPublic then
                               (Done (r\<lparr>successCount := successCount r + 1\<rparr>), w2)
                             else
                               (case request fails (UpdatePublic (doc_id d) isPublic) w2 of
                                  (False, w3) \<Rightarrow> (Thrown, w3)
                                | (True, w3) \<Rightarrow>
                                    (Done (r\<lparr>successCount := successCount r + 1,
                                             updatedCount := updatedCount r + 1\<rparr>),
                                     on_store (update_public (doc_id d) isPublic) w3)))
                          else reindex sy fails cfg r w2 p (Some d) markdown cs isPublic)))"

text \<open>Lines 42 to 233: the \<open>try\<close> and its \<open>catch\<close>, then the loop over the files.\<close>

definition sync_file ::
  "sys \<Rightarrow> failures \<Rightarrow> AIConfig \<Rightarrow> string list \<Rightarrow> EmbeddingResult \<times> world \<Rightarrow> string \<Rightarrow>
   EmbeddingResult \<times> world" where
  "sync_file sy fails cfg publicDirs rw p =
     (case process_file sy fails cfg publicDirs (fst rw) (snd rw) p of
        (Done r', w') \<Rightarrow> (r', w')
      | (Thrown, w') \<Rightarrow> ((fst rw)\<lparr>errorCount := errorCount (fst rw) + 1\<rparr>, w'))"

fun sync_files ::
  "sys \<Rightarrow> failures \<Rightarrow> AIConfig \<Rightarrow> string list \<Rightarrow> string list \<Rightarrow> EmbeddingResult \<times> world \<Rightarrow>
   EmbeddingResult \<times> world" where
  "sync_files sy fails cfg publicDirs [] rw = rw"
| "sync_files sy fails cfg publicDirs (p # ps) rw =
     sync_files sy fails cfg publicDirs ps (sync_file sy fails cfg publicDirs rw p)"

text \<open>
  Lines 248 to 272: the loop over the stored documents. A document whose path is a live
  file is passed over; any other is deleted by path, and \<open>deleteCount\<close> is incremented
  whether or not the deletion failed.
\<close>

fun delete_dangling ::
  "failures \<Rightarrow> string list \<Rightarrow> document list \<Rightarrow> EmbeddingResult \<times> world \<Rightarrow> EmbeddingResult \<times> world" where
  "delete_dangling fails files [] rw = rw"
| "delete_dangling fails files (d # ds) rw =
     (if path d \<in> set files then delete_dangling fails files ds rw
      else
        (case request fails (DeleteDocument (path d)) (snd rw) of
           (False, w1) \<Rightarrow>
             delete_dangling fails files ds
               ((fst rw)\<lparr>errorCount := errorCount (fst rw) + 1,
                         deleteCount := deleteCount (fst rw) + 1\<rparr>, w1)
         | (True, w1) \<Rightarrow>
             delete_dangling fails files ds
               ((fst rw)\<lparr>deleteCount := deleteCount (fst rw) + 1\<rparr>,
                on_store (delete_document (path d)) w1)))"

text \<open>Lines 235 to 274: the reconciliation pass.\<close>

definition reconcile ::
  "failures \<Rightarrow> string list \<Rightarrow> EmbeddingResult \<times> world \<Rightarrow> EmbeddingResult \<times> world" where
  "reconcile fails files rw =
     (case request fails SelectAllDocuments (snd rw) of
        (False, w1) \<Rightarrow> ((fst rw)\<lparr>errorCount := errorCount (fst rw) + 1\<rparr>, w1)
      | (True, w1) \<Rightarrow> delete_dangling fails files (documents (st w1)) (fst rw, w1))"

definition live_files :: "sys \<Rightarrow> string list \<Rightarrow> string list \<Rightarrow> string list" where
  "live_files sy excludeDirs vault = filter (\<lambda>p. \<not> isFileInDirectories sy p excludeDirs) vault"

definition generateEmbeddings ::
  "sys \<Rightarrow> failures \<Rightarrow> AIConfig \<Rightarrow> string list \<Rightarrow> string list \<Rightarrow> string list \<Rightarrow> world \<Rightarrow>
   EmbeddingResult \<times> world" where
  "generateEmbeddings sy fails cfg excludeDirs publicDirs vault w =
     (let files = live_files sy excludeDirs vault;
          embeddingResult = \<lparr>successCount = 0, updatedCount = 0, errorCount = 0, deleteCount = 0\<rparr>
      in reconcile fails files
           (sync_files sy fails cfg publicDirs files (embeddingResult, w)))"

section \<open>Notions used to state the properties\<close>

text \<open>
  The store's own constraints: identities are unique and were all handed out below
  \<open>next_id\<close>, also those the sections refer to.
\<close>

definition wf_store :: "store \<Rightarrow> bool" where
  "wf_store s \<longleftrightarrow> distinct (map doc_id (documents s)) \<and>
     (\<forall>d \<in> set (documents s). doc_id d < next_id s) \<and>
     (\<forall>x \<in> set (sections s). document_id x < next_id s)"

text \<open>How many of the steps \<open>evs\<close>, taken one after the other after the log \<open>tr\<close>, fail.\<close>

fun failed_count :: "failures \<Rightarrow> event list \<Rightarrow> event list \<Rightarrow> nat" where
  "failed_count fails tr [] = 0"
| "failed_count fails tr (e # es) =
     (if fails tr e then 1 else 0) + failed_count fails (tr @ [e]) es"

text \<open>The row written for a section and the two requests sent for it.\<close>

definition section_row :: "sys \<Rightarrow> nat \<Rightarrow> string \<times> string \<Rightarrow> document_section" where
  "section_row sy did x =
     \<lparr>document_id = did, content = fst x,
      token_count = fst (createEmbedding sy (snd x)),
      embedding = snd (createEmbedding sy (snd x))\<rparr>"

definition section_events :: "sys \<Rightarrow> nat \<Rightarrow> (string \<times> string) list \<Rightarrow> event list" where
  "section_events sy did xs =
     concat (map (\<lambda>x. [CreateEmbedding (snd x),
                        InsertSection did (fst x) (fst (createEmbedding sy (snd x)))
                          (snd (createEmbedding sy (snd x)))]) xs)"

text \<open>
  The steps of a complete re-index of the file \<open>p\<close>, in order, when the lookup found
  \<open>existing\<close> and the store would give a new row the identity \<open>nid\<close>.
\<close>

definition reindex_target :: "document option \<Rightarrow> nat \<Rightarrow> nat" where
  "reindex_target existing nid = (case existing of Some d \<Rightarrow> doc_id d | None \<Rightarrow> nid)"

definition reindex_meta :: "sys \<Rightarrow> string \<Rightarrow> frontmatter" where
  "reindex_meta sy p = AList.update ''path'' p (snd (parseMarkdown sy (cachedRead sy p)))"

definition reindex_sections :: "sys \<Rightarrow> AIConfig \<Rightarrow> string \<Rightarrow> (string \<times> string) list" where
  "reindex_sections sy cfg p =
     chunk_inputs sy cfg (reindex_meta sy p) p
       (smartChunkParagraphs sy (fst (parseMarkdown sy (cachedRead sy p)))
          (minParagraphSize cfg) (maxParagraphSize cfg))"

definition reindex_events ::
  "sys \<Rightarrow> AIConfig \<Rightarrow> string list \<Rightarrow> string \<Rightarrow> document option \<Rightarrow> nat \<Rightarrow> event list" where
  "reindex_events sy cfg publicDirs p existing nid =
     (case existing of Some d \<Rightarrow> [DeleteSections (doc_id d)] | None \<Rightarrow> []) @
     [ParseMarkdown p,
      UpsertDocument p (reindex_meta sy p) (isFileInDirectories sy p publicDirs)] @
     section_events sy (reindex_target existing nid) (reindex_sections sy cfg p) @
     [UpdateChecksum (reindex_target existing nid) (sha256 sy (cachedRead sy p))]"

text \<open>The file \<open>p\<close> needs a re-index: no row, or a row with another checksum.\<close>

definition needs_reindex :: "sys \<Rightarrow> string \<Rightarrow> store \<Rightarrow> bool" where
  "needs_reindex sy p s =
     (case find_document p s of
        None \<Rightarrow> True
      | Some d \<Rightarrow> checksum d \<noteq> Some (sha256 sy (cachedRead sy p)))"

text \<open>The row of \<open>p\<close> carries the checksum of the file and the computed visibility.\<close>

definition synced :: "sys \<Rightarrow> string list \<Rightarrow> store \<Rightarrow> string \<Rightarrow> bool" where
  "synced sy publicDirs s p =
     (case find_document p s of
        None \<Rightarrow> False
      | Some d \<Rightarrow> checksum d = Some (sha256 sy (cachedRead sy p)) \<and>
                  public d = isFileInDirectories sy p publicDirs)"

text \<open>The file a step of the per-document pass names, if it names one.\<close>

fun event_file :: "event \<Rightarrow> string option" where
  "event_file (SelectDocument q) = Some q"
| "event_file (CachedRead q) = Some q"
| "event_file (ParseMarkdown q) = Some q"
| "event_file (UpsertDocument q fm b) = Some q"
| "event_file e = None"

text \<open>The stored documents that no live file accounts for.\<close>

definition dangling :: "string list \<Rightarrow> document list \<Rightarrow> document list" where
  "dangling files ds = filter (\<lambda>d. path d \<notin> set files) ds"

text \<open>The deletions the reconciliation pass requests, one for each dangling document.\<close>

definition deletion_requests :: "string list \<Rightarrow> document list \<Rightarrow> event list" where
  "deletion_requests files ds = map (\<lambda>d. DeleteDocument (path d)) (dangling files ds)"

text \<open>Those of the steps \<open>evs\<close>, taken one after the other after the log \<open>tr\<close>, that succeed.\<close>

fun succeeded :: "failures \<Rightarrow> event list \<Rightarrow> event list \<Rightarrow> event list" where
  "succeeded fails tr [] = []"
| "succeeded fails tr (e # es) =
     (if fails tr e then [] else [e]) @ succeeded fails (tr @ [e]) es"

section \<open>The search modal (main.ts)\<close>

record SearchSettings =
  matchThreshold :: real
  matchCount :: nat
  minContentLength :: nat

record SearchResult =
  result_id :: string
  result_document_id :: string
  result_content :: string
  result_path :: string
  similarity :: string

text \<open>
  What the modal calls: the moderation endpoint, the embedding endpoint, the store's
  similarity query and the chat endpoint, and what it does to the screen.
\<close>

datatype call =
    CreateModeration string
  | QueryEmbedding string
  | MatchSections vector real nat nat
  | CreateChatCompletion
  | UpdateSuggestions
  | Notice

text \<open>
  The answers of the providers; \<open>None\<close> is a request that fails. \<open>trim\<close> is JavaScript's
  \<open>String.prototype.trim\<close>.
\<close>

record providers =
  trim :: "string \<Rightarrow> string"
  moderation :: "string \<Rightarrow> bool option"
  queryEmbedding :: "string \<Rightarrow> vector option"
  matchSections :: "vector \<Rightarrow> real \<Rightarrow> nat \<Rightarrow> nat \<Rightarrow> SearchResult list option"

record modal =
  results :: "SearchResult list"
  searchQuery :: string
  calls :: "call list"

datatype search_error = FlaggedContent | ModerationUnavailable

text \<open>
  Modelled from the spec: \<open>semanticSearch\<close> of ./search is not under src/. The spec (4.5)
  has it embed the query text, then query the record store for the nearest sections
  under the threshold, count and minimum length; the moderation of step (a) is done
  by the caller, in lines 532 to 545 of main.ts. A failure of either call is thrown.
\<close>

definition semanticSearch ::
  "providers \<Rightarrow> string \<Rightarrow> real \<Rightarrow> nat \<Rightarrow> nat \<Rightarrow> call list \<Rightarrow> SearchResult list option \<times> call list" where
  "semanticSearch pv query threshold cnt minLen cs =
     (case queryEmbedding pv query of
        None \<Rightarrow> (None, cs @ [QueryEmbedding query])
      | Some v \<Rightarrow>
          (matchSections pv v threshold cnt minLen,
           cs @ [QueryEmbedding query, MatchSections v threshold cnt minLen]))"

text \<open>Lines 522 to 566 of main.ts.\<close>

definition getSuggestionsInternal ::
  "providers \<Rightarrow> nat \<Rightarrow> SearchSettings \<Rightarrow> string \<Rightarrow> bool \<Rightarrow> modal \<Rightarrow> (search_error + unit) \<times> modal" where
  "getSuggestionsInternal pv minLengthBeforeAutoSearch' semanticSearchSettings query forceDespiteLength m =
     (if trim pv query \<noteq> trim pv (searchQuery m) \<and>
         (length query > minLengthBeforeAutoSearch' \<or> forceDespiteLength)
      then
        (let m1 = m\<lparr>searchQuery := query,
                     calls := calls m @ [CreateModeration (trim pv query)]\<rparr>
         in case moderation pv (trim pv query) of
              None \<Rightarrow> (Inl ModerationUnavailable, m1)
            | Some True \<Rightarrow>
                (Inl FlaggedContent, m1\<lparr>results := [], calls := calls m1 @ [UpdateSuggestions]\<rparr>)
            | Some False \<Rightarrow>
                (case semanticSearch pv query (matchThreshold semanticSearchSettings)
                        (matchCount semanticSearchSettings)
                        (minContentLength semanticSearchSettings) (calls m1) of
                   (Some found, cs) \<Rightarrow>
                     (Inr (), m1\<lparr>results := found, calls := cs @ [UpdateSuggestions]\<rparr>)
                 | (None, cs) \<Rightarrow>
                     (Inr (), m1\<lparr>results := [], calls := cs @ [Notice, UpdateSuggestions]\<rparr>)))
      else (Inr (), m))"

text \<open>The calls that reach the embedding provider, the record store or the chat provider.\<close>

fun reaches_provider :: "call \<Rightarrow> bool" where
  "reaches_provider (QueryEmbedding q) = True"
| "reaches_provider (MatchSections v t c l) = True"
| "reaches_provider CreateChatCompletion = True"
| "reaches_provider c = False"

text \<open>The spec's words for the overlap: the trailing \<open>n\<close> characters of a chunk.\<close>

definition trailing :: "nat \<Rightarrow> string \<Rightarrow> string" where
  "trailing n s = drop (length s - n) s"

section \<open>A small vault\<close>

text \<open>
  Collaborators for concrete runs: paths are kept as they are, the hash is the text
  itself (so that it is injective), a file's text opens with a front-matter line that ends
  at the first \<open>|\<close>, and the chunker cuts the body after three characters.
\<close>

definition example_text :: "string \<Rightarrow> string" where
  "example_text p = (if p = ''Public/n'' then ''t:a|Hello'' else ''t:b|Some'')"

definition example_sys :: sys where
  "example_sys =
     \<lparr> normalize = (\<lambda>p. p),
       sha256 = (\<lambda>t. t),
       cachedRead = example_text,
       parseMarkdown = (\<lambda>t. (drop 1 (dropWhile (\<lambda>c. c \<noteq> CHR ''|'') t),
                             [(''t'', drop 2 (takeWhile (\<lambda>c. c \<noteq> CHR ''|'') t))])),
       smartChunkParagraphs = (\<lambda>t a b. [take 3 t, drop 3 t]),
       serialize = (\<lambda>fm. concat (map (\<lambda>kv. fst kv @ ''='' @ snd kv @ '';'') fm)),
       createEmbedding = (\<lambda>t. (length t, [int (length t)])) \<rparr>"

definition reliable :: failures where
  "reliable tr ev = False"

definition empty_world :: world where
  "empty_world = \<lparr> st = \<lparr>documents = [], sections = [], next_id = 0\<rparr>, trace = [] \<rparr>"

definition zero_result :: EmbeddingResult where
  "zero_result = \<lparr>successCount = 0, updatedCount = 0, errorCount = 0, deleteCount = 0\<rparr>"

definition overlap_config :: "nat \<Rightarrow> AIConfig" where
  "overlap_config n = config\<lparr>charsFromPreviousParagraph := Some n\<rparr>"

text \<open>
  A store left by an earlier sync: the row of \<open>Public/n\<close> is up to date but for its flag,
  the row of \<open>gone\<close> has no file any more, and the row of \<open>x\<close> has the checksum of a text
  with the same body and another front matter.
\<close>

definition stored_world :: world where
  "stored_world =
     \<lparr> st = \<lparr>documents =
               [\<lparr>doc_id = 0, path = ''Public/n'', checksum = Some ''t:a|Hello'',
                 meta = [(''t'', ''a''), (''path'', ''Public/n'')], public = False\<rparr>,
                \<lparr>doc_id = 1, path = ''gone'', checksum = Some ''t:c|Old'',
                 meta = [(''t'', ''c''), (''path'', ''gone'')], public = False\<rparr>,
                \<lparr>doc_id = 2, path = ''x'', checksum = Some ''t:a|Some'',
                 meta = [(''t'', ''a''), (''path'', ''x'')], public = False\<rparr>],
             sections =
               [\<lparr>document_id = 1, content = ''Old'', token_count = 3, embedding = [3]\<rparr>,
                \<lparr>document_id = 2, content = ''Som'', token_count = 3, embedding = [3]\<rparr>,
                \<lparr>document_id = 2, content = ''e'', token_count = 1, embedding = [1]\<rparr>],
             next_id = 3\<rparr>,
       trace = [] \<rparr>"

text \<open>
  Oracles that fail every deletion of a document, the full scan, and every insertion of
  a section.
\<close>

definition deletions_fail :: failures where
  "deletions_fail tr ev = (case ev of DeleteDocument q \<Rightarrow> True | _ \<Rightarrow> False)"

definition listing_fails :: failures where
  "listing_fails tr ev = (ev = SelectAllDocuments)"

definition insertions_fail :: failures where
  "insertions_fail tr ev = (case ev of InsertSection i c t v \<Rightarrow> True | _ \<Rightarrow> False)"

text \<open>
  Providers for a concrete search: the moderation endpoint flags one query, and the modal
  shows one result of an earlier search.
\<close>

definition example_providers :: providers where
  "example_providers =
     \<lparr> trim = (\<lambda>q. rev (dropWhile (\<lambda>c. c = CHR '' '') (rev (dropWhile (\<lambda>c. c = CHR '' '') q)))),
       moderation = (\<lambda>q. Some (q = ''bad words'')),
       queryEmbedding = (\<lambda>q. Some [int (length q)]),
       matchSections = (\<lambda>v t c l. Some []) \<rparr>"

definition example_modal :: modal where
  "example_modal =
     \<lparr> results = [\<lparr>result_id = ''7'', result_document_id = ''0'', result_content = ''Hel'',
                   result_path = ''Public/n'', similarity = ''0.5''\<rparr>],
       searchQuery = ''hello'',
       calls = [] \<rparr>"

definition example_settings :: SearchSettings where
  "example_settings = \<lparr>matchThreshold = 3 / 10, matchCount = 10, minContentLength = 10\<rparr>"

section \<open>What the steps do\<close>

subsection \<open>The loop over the sections\<close>

lemma failed_count_append:
  "failed_count fails tr (a @ b) = failed_count fails tr a + failed_count fails (tr @ a) b"
  by (induction a arbitrary: tr) auto

lemma section_events_Cons:
  "section_events sy did (x # xs) =
     CreateEmbedding (snd x) #
     InsertSection did (fst x) (fst (createEmbedding sy (snd x))) (snd (createEmbedding sy (snd x))) #
     section_events sy did xs"
  by (simp add: section_events_def)

lemma section_events_Nil [simp]: "section_events sy did [] = []"
  by (simp add: section_events_def)

lemma embed_sections_effect:
  "embed_sections sy fails did xs w = (ok, w') \<Longrightarrow>
     documents (st w') = documents (st w) \<and> next_id (st w') = next_id (st w) \<and>
     (\<exists>k evs. k \<le> length xs \<and> sections (st w') = sections (st w) @ map (section_row sy did) (take k xs) \<and>
        trace w' = trace w @ evs \<and> prefix evs (section_events sy did xs) \<and>
        failed_count fails (trace w) evs = (if ok then 0 else 1) \<and>
        (ok \<longrightarrow> k = length xs \<and> evs = section_events sy did xs))"
proof (induction xs arbitrary: w)
  case Nil
  then show ?case by auto
next
  case (Cons x xs)
  obtain sec inp where x: "x = (sec, inp)" by (cases x)
  obtain tokens vec where ce: "createEmbedding sy inp = (tokens, vec)" by (cases "createEmbedding sy inp")
  let ?e1 = "CreateEmbedding inp"
  let ?e2 = "InsertSection did sec tokens vec"
  let ?w1 = "w\<lparr>trace := trace w @ [?e1]\<rparr>"
  let ?w2 = "w\<lparr>trace := trace w @ [?e1, ?e2]\<rparr>"
  show ?case
  proof (cases "fails (trace w) ?e1")
    case True
    with Cons.prems x have "ok = False" "w' = ?w1" by (auto simp: request_def)
    then show ?thesis using True x ce
      by (auto simp: section_events_Cons intro!: exI[of _ 0] exI[of _ "[?e1]"])
  next
    case f1: False
    show ?thesis
    proof (cases "fails (trace w @ [?e1]) ?e2")
      case True
      with Cons.prems x ce f1 have "ok = False" "w' = ?w2" by (auto simp: request_def)
      then show ?thesis using True f1 x ce
        by (auto simp: section_events_Cons intro!: exI[of _ 0] exI[of _ "[?e1, ?e2]"])
    next
      case f2: False
      let ?w3 = "on_store (insert_section \<lparr>document_id = did, content = sec, token_count = tokens, embedding = vec\<rparr>) ?w2"
      from Cons.prems x ce f1 f2 have rec: "embed_sections sy fails did xs ?w3 = (ok, w')"
        by (auto simp: request_def)
      from Cons.IH[OF rec] obtain k evs where
        a: "documents (st w') = documents (st ?w3)" "next_id (st w') = next_id (st ?w3)"
        and k: "k \<le> length xs" "sections (st w') = sections (st ?w3) @ map (section_row sy did) (take k xs)"
        "trace w' = trace ?w3 @ evs" "prefix evs (section_events sy did xs)"
        "failed_count fails (trace ?w3) evs = (if ok then 0 else 1)"
        "ok \<longrightarrow> k = length xs \<and> evs = section_events sy did xs"
        by blast
      have row: "section_row sy did x = \<lparr>document_id = did, content = sec, token_count = tokens, embedding = vec\<rparr>"
        using x ce by (simp add: section_row_def)
      show ?thesis using a k f1 f2 x ce row
        by (auto simp: section_events_Cons on_store_def insert_section_def
                 intro!: exI[of _ "Suc k"] exI[of _ "?e1 # ?e2 # evs"])
    qed
  qed
qed

subsection \<open>The store\<close>

lemma find_map_path:
  assumes "\<And>d. path (f d) = path d"
  shows "find (\<lambda>d. path d = q) (map f ds) = map_option f (find (\<lambda>d. path d = q) ds)"
  by (induction ds) (auto simp: assms)

lemma find_document_mem: "find_document p s = Some d \<Longrightarrow> d \<in> set (documents s) \<and> path d = p"
  by (auto simp: find_document_def find_Some_iff)

lemma find_document_None: "find_document p s = None \<longleftrightarrow> p \<notin> path ` set (documents s)"
  by (auto simp: find_document_def find_None_iff)

lemma distinct_id_eq:
  "distinct (map doc_id ds) \<Longrightarrow> d \<in> set ds \<Longrightarrow> d' \<in> set ds \<Longrightarrow> doc_id d = doc_id d' \<Longrightarrow> d = d'"
  by (meson distinct_map inj_onD)

text \<open>An update by identity of the row found under a path changes that row alone.\<close>

lemma find_update_by_id:
  assumes dist: "distinct (map doc_id ds)"
    and g: "\<And>x. path (g x) = path x"
    and d: "find (\<lambda>x. path x = p) ds = Some d"
  shows "find (\<lambda>x. path x = q) (map (\<lambda>x. if doc_id x = doc_id d then g x else x) ds) =
         (if q = p then Some (g d) else find (\<lambda>x. path x = q) ds)"
proof -
  let ?f = "\<lambda>x. if doc_id x = doc_id d then g x else x"
  have pf: "\<And>x. path (?f x) = path x" by (simp add: g)
  have dm: "d \<in> set ds" "path d = p" using d by (auto simp: find_Some_iff)
  have eq: "find (\<lambda>x. path x = q) (map ?f ds) = map_option ?f (find (\<lambda>x. path x = q) ds)"
    by (rule find_map_path) (simp add: g)
  show ?thesis
  proof (cases "q = p")
    case True
    then show ?thesis using eq d by simp
  next
    case False
    show ?thesis
    proof (cases "find (\<lambda>x. path x = q) ds")
      case None
      then show ?thesis using eq False by simp
    next
      case (Some d')
      then have "d' \<in> set ds" "path d' = q" by (auto simp: find_Some_iff)
      then have "doc_id d' \<noteq> doc_id d"
        using distinct_id_eq[OF dist, of d' d] dm False by auto
      then show ?thesis using eq Some False by simp
    qed
  qed
qed

lemma update_public_find:
  assumes "wf_store s" "find_document p s = Some d"
  shows "find_document q (update_public (doc_id d) b s) =
         (if q = p then Some (d\<lparr>public := b\<rparr>) else find_document q s)"
  using assms find_update_by_id[of "documents s" "\<lambda>x. x\<lparr>public := b\<rparr>" p d q]
  by (simp add: wf_store_def find_document_def update_public_def)

lemma update_checksum_find:
  assumes "wf_store s" "find_document p s = Some d"
  shows "find_document q (update_checksum (doc_id d) c s) =
         (if q = p then Some (d\<lparr>checksum := Some c\<rparr>) else find_document q s)"
  using assms find_update_by_id[of "documents s" "\<lambda>x. x\<lparr>checksum := Some c\<rparr>" p d q]
  by (simp add: wf_store_def find_document_def update_checksum_def)

lemma doc_id_if_update:
  assumes "\<And>x. doc_id (g x) = doc_id x"
  shows "(\<lambda>x. doc_id (if P x then g x else x)) = doc_id"
  by (rule ext) (simp add: assms)

lemma wf_update_public: "wf_store s \<Longrightarrow> wf_store (update_public i b s)"
  by (auto simp: wf_store_def update_public_def comp_def doc_id_if_update)

lemma wf_update_checksum: "wf_store s \<Longrightarrow> wf_store (update_checksum i c s)"
  by (auto simp: wf_store_def update_checksum_def comp_def doc_id_if_update)

lemma wf_delete_sections: "wf_store s \<Longrightarrow> wf_store (delete_sections i s)"
  by (auto simp: wf_store_def delete_sections_def)

lemma wf_delete_document: "wf_store s \<Longrightarrow> wf_store (delete_document p s)"
  by (auto simp: wf_store_def delete_document_def distinct_map_filter)

lemma find_delete_document:
  "find_document q (delete_document p s) = (if q = p then None else find_document q s)"
proof -
  have "find (\<lambda>d. path d = q) (filter (\<lambda>d. path d \<noteq> p) ds) =
        (if q = p then None else find (\<lambda>d. path d = q) ds)" for ds :: "document list"
    by (induction ds) auto
  then show ?thesis by (simp add: find_document_def delete_document_def)
qed

lemma upsert_document_effect:
  assumes "upsert_document p fm b s = (doc, s')"
  shows "find_document p s' = Some doc"
    and "checksum doc = None" and "public doc = b" and "meta doc = fm" and "path doc = p"
    and "doc_id doc = reindex_target (find_document p s) (next_id s)"
    and "q \<noteq> p \<Longrightarrow> find_document q s' = find_document q s"
    and "sections s' = sections s"
    and "wf_store s \<Longrightarrow> wf_store s'"
proof -
  let ?g = "\<lambda>x. x\<lparr>checksum := None, meta := fm, public := b\<rparr>"
  have mapfind: "find (\<lambda>d. path d = q) (map (\<lambda>x. if path x = p then ?g x else x) ds) =
        map_option (\<lambda>x. if path x = p then ?g x else x) (find (\<lambda>d. path d = q) ds)" for q ds
    by (rule find_map_path) simp
  have appfind: "find (\<lambda>d. path d = q) (ds @ [x]) =
        (case find (\<lambda>d. path d = q) ds of Some y \<Rightarrow> Some y | None \<Rightarrow> if path x = q then Some x else None)"
    for q ds and x :: document
    by (induction ds) auto
  show "find_document p s' = Some doc"
  proof (cases "find_document p s")
    case None
    then show ?thesis using assms appfind[of p "documents s"]
      by (auto simp: upsert_document_def find_document_def Let_def)
  next
    case (Some d)
    then have "path d = p" by (auto dest: find_document_mem)
    then show ?thesis using Some assms mapfind[of p "documents s"]
      by (auto simp: upsert_document_def find_document_def)
  qed
  show "checksum doc = None" "public doc = b" "meta doc = fm"
    using assms by (auto simp: upsert_document_def Let_def split: option.splits)
  show "path doc = p"
    using assms by (auto simp: upsert_document_def Let_def split: option.splits dest: find_document_mem)
  show "doc_id doc = reindex_target (find_document p s) (next_id s)"
    using assms by (auto simp: upsert_document_def reindex_target_def Let_def split: option.splits)
  show "find_document q s' = find_document q s" if "q \<noteq> p"
  proof (cases "find_document p s")
    case None
    then show ?thesis using assms that appfind[of q "documents s"]
      by (auto simp: upsert_document_def find_document_def Let_def split: option.splits)
  next
    case (Some d)
    have "map_option (\<lambda>x. if path x = p then ?g x else x) (find (\<lambda>d. path d = q) (documents s))
          = find (\<lambda>d. path d = q) (documents s)"
    proof (cases "find (\<lambda>d. path d = q) (documents s)")
      case None
      then show ?thesis by simp
    next
      case (Some y)
      then have "path y = q" by (auto simp: find_Some_iff)
      then show ?thesis using Some that by simp
    qed
    then show ?thesis using Some assms mapfind[of q "documents s"]
      by (auto simp: upsert_document_def find_document_def)
  qed
  show "sections s' = sections s"
    using assms by (auto simp: upsert_document_def Let_def split: option.splits)
  show "wf_store s'" if "wf_store s"
  proof (cases "find_document p s")
    case None
    then show ?thesis using assms that
      by (fastforce simp: upsert_document_def wf_store_def Let_def)
  next
    case (Some d)
    then show ?thesis using assms that
      by (auto simp: upsert_document_def wf_store_def comp_def doc_id_if_update)
  qed
qed


lemma find_update_by_id_self:
  assumes g: "\<And>x. path (g x) = path x"
    and d: "find (\<lambda>x. path x = p) ds = Some d"
  shows "find (\<lambda>x. path x = p) (map (\<lambda>x. if doc_id x = doc_id d then g x else x) ds) = Some (g d)"
proof -
  have "find (\<lambda>x. path x = p) (map (\<lambda>x. if doc_id x = doc_id d then g x else x) ds) =
        map_option (\<lambda>x. if doc_id x = doc_id d then g x else x) (find (\<lambda>x. path x = p) ds)"
    by (rule find_map_path) (simp add: g)
  then show ?thesis using d by simp
qed

lemma update_checksum_find_self:
  "find_document p s = Some d \<Longrightarrow>
   find_document p (update_checksum (doc_id d) c s) = Some (d\<lparr>checksum := Some c\<rparr>)"
  using find_update_by_id_self[of "\<lambda>x. x\<lparr>checksum := Some c\<rparr>" p "documents s" d]
  by (simp add: find_document_def update_checksum_def)

lemma update_public_find_self:
  "find_document p s = Some d \<Longrightarrow>
   find_document p (update_public (doc_id d) b s) = Some (d\<lparr>public := b\<rparr>)"
  using find_update_by_id_self[of "\<lambda>x. x\<lparr>public := b\<rparr>" p "documents s" d]
  by (simp add: find_document_def update_public_def)

subsection \<open>Indexing a document\<close>

lemma index_document_effect:
  assumes run: "index_document sy fails cfg r w p (cachedRead sy p) cs isPub = (out, w')"
  defines "did \<equiv> reindex_target (find_document p (st w)) (next_id (st w))"
  defines "full \<equiv> [ParseMarkdown p, UpsertDocument p (reindex_meta sy p) isPub] @
                   section_events sy did (reindex_sections sy cfg p) @ [UpdateChecksum did cs]"
  shows "\<exists>evs. trace w' = trace w @ evs \<and> prefix evs full \<and>
           failed_count fails (trace w) evs = (if out = Thrown then 1 else 0) \<and>
           (out \<noteq> Thrown \<longrightarrow> evs = full) \<and>
           (out = Thrown \<and> \<not> prefix evs [ParseMarkdown p, UpsertDocument p (reindex_meta sy p) isPub] \<longrightarrow>
              (\<exists>d. find_document p (st w') = Some d \<and> checksum d = None))"
    and "out \<noteq> Thrown \<longrightarrow>
           out = Done (r\<lparr>successCount := successCount r + 1, updatedCount := updatedCount r + 1\<rparr>)"
    and "wf_store (st w) \<longrightarrow> wf_store (st w') \<and>
           (\<forall>q. q \<noteq> p \<longrightarrow> find_document q (st w') = find_document q (st w))"
    and "out \<noteq> Thrown \<longrightarrow>
           (\<exists>d. find_document p (st w') = Some d \<and> checksum d = Some cs \<and> public d = isPub \<and>
                meta d = reindex_meta sy p \<and> doc_id d = did)"
    and "out = Thrown \<longrightarrow> find_document p (st w') = find_document p (st w) \<or>
           (\<exists>d. find_document p (st w') = Some d \<and> checksum d = None)"
    and "\<exists>k \<le> length (reindex_sections sy cfg p).
           sections (st w') = sections (st w) @ map (section_row sy did) (take k (reindex_sections sy cfg p)) \<and>
           (out \<noteq> Thrown \<longrightarrow> k = length (reindex_sections sy cfg p))"
proof -
  let ?fm = "reindex_meta sy p"
  let ?xs = "reindex_sections sy cfg p"
  let ?par = "ParseMarkdown p"
  let ?ups = "UpsertDocument p ?fm isPub"
  let ?w2 = "w\<lparr>trace := trace w @ [?par, ?ups]\<rparr>"
  obtain doc s3 where ups: "upsert_document p ?fm isPub (st w) = (doc, s3)"
    by (cases "upsert_document p ?fm isPub (st w)")
  note U = upsert_document_effect[OF ups]
  have did: "doc_id doc = did" using U(6) by (simp add: did_def)
  obtain ok4 w4 where emb: "embed_sections sy fails did ?xs (?w2\<lparr>st := s3\<rparr>) = (ok4, w4)"
    by (cases "embed_sections sy fails did ?xs (?w2\<lparr>st := s3\<rparr>)")
  from embed_sections_effect[OF emb] obtain k evs where
    E: "documents (st w4) = documents s3" "next_id (st w4) = next_id s3"
       "k \<le> length ?xs" "sections (st w4) = sections s3 @ map (section_row sy did) (take k ?xs)"
       "trace w4 = trace w @ [?par, ?ups] @ evs" "prefix evs (section_events sy did ?xs)"
       "failed_count fails (trace w @ [?par, ?ups]) evs = (if ok4 then 0 else 1)"
       "ok4 \<longrightarrow> k = length ?xs \<and> evs = section_events sy did ?xs"
    by auto
  have f4: "find_document q (st w4) = find_document q s3" for q
    using E(1) by (simp add: find_document_def)
  have wf4: "wf_store (st w) \<Longrightarrow> wf_store (st w4)"
  proof -
    assume "wf_store (st w)"
    then have a: "wf_store s3" by (rule U(9))
    have "did < next_id s3" using a U(1) did by (auto simp: wf_store_def dest!: find_document_mem)
    then show ?thesis using a E(1,2,4)
      by (auto simp: wf_store_def section_row_def dest: in_set_takeD)
  qed
  let ?uc = "UpdateChecksum did cs"
  let ?w5 = "w4\<lparr>trace := trace w4 @ [?uc]\<rparr>"
  have unfold: "(out, w') =
      (if fails (trace w) ?par then (Thrown, w\<lparr>trace := trace w @ [?par]\<rparr>)
       else if fails (trace w @ [?par]) ?ups then (Thrown, ?w2)
       else if \<not> ok4 then (Thrown, w4)
       else if fails (trace w4) ?uc then (Thrown, ?w5)
       else (Done (r\<lparr>successCount := successCount r + 1, updatedCount := updatedCount r + 1\<rparr>),
             on_store (update_checksum did cs) ?w5))"
    using run ups emb did
    by (cases ok4) (auto simp: index_document_def request_def reindex_meta_def reindex_sections_def Let_def
          split: bool.splits)
  consider (z) "fails (trace w) ?par" "out = Thrown" "w' = w\<lparr>trace := trace w @ [?par]\<rparr>"
    | (a) "\<not> fails (trace w) ?par" "fails (trace w @ [?par]) ?ups" "out = Thrown" "w' = ?w2"
    | (b) "\<not> fails (trace w) ?par" "\<not> fails (trace w @ [?par]) ?ups" "\<not> ok4" "out = Thrown" "w' = w4"
    | (c) "\<not> fails (trace w) ?par" "\<not> fails (trace w @ [?par]) ?ups" "ok4" "fails (trace w4) ?uc"
          "out = Thrown" "w' = ?w5"
    | (d) "\<not> fails (trace w) ?par" "\<not> fails (trace w @ [?par]) ?ups" "ok4" "\<not> fails (trace w4) ?uc"
          "out = Done (r\<lparr>successCount := successCount r + 1, updatedCount := updatedCount r + 1\<rparr>)"
          "w' = on_store (update_checksum did cs) ?w5"
    using unfold by (auto split: if_splits)
  note cases = this
  show "\<exists>evs. trace w' = trace w @ evs \<and> prefix evs full \<and>
           failed_count fails (trace w) evs = (if out = Thrown then 1 else 0) \<and>
           (out \<noteq> Thrown \<longrightarrow> evs = full) \<and>
           (out = Thrown \<and> \<not> prefix evs [ParseMarkdown p, UpsertDocument p (reindex_meta sy p) isPub] \<longrightarrow>
              (\<exists>d. find_document p (st w') = Some d \<and> checksum d = None))"
  proof (cases rule: cases)
    case z
    then show ?thesis by (auto simp: full_def intro!: exI[of _ "[?par]"])
  next
    case a
    then show ?thesis by (auto simp: full_def intro!: exI[of _ "[?par, ?ups]"])
  next
    case b
    then have "evs \<noteq> []" using E(7) by auto
    then show ?thesis using b E f4 U(1,2)
      by (auto simp: full_def failed_count_append intro!: exI[of _ "?par # ?ups # evs"])
  next
    case c
    then show ?thesis using E f4 U(1,2)
      by (auto simp: full_def failed_count_append on_store_def
               intro!: exI[of _ "?par # ?ups # evs @ [?uc]"])
  next
    case d
    then show ?thesis using E
      by (auto simp: full_def failed_count_append on_store_def
               intro!: exI[of _ "?par # ?ups # evs @ [?uc]"])
  qed
  show "out \<noteq> Thrown \<longrightarrow>
           out = Done (r\<lparr>successCount := successCount r + 1, updatedCount := updatedCount r + 1\<rparr>)"
    by (cases rule: cases) auto
  show "wf_store (st w) \<longrightarrow> wf_store (st w') \<and>
           (\<forall>q. q \<noteq> p \<longrightarrow> find_document q (st w') = find_document q (st w))"
  proof (cases rule: cases)
    case z
    then show ?thesis by simp
  next
    case a
    then show ?thesis by simp
  next
    case b
    then show ?thesis using wf4 f4 U(7) by auto
  next
    case c
    then show ?thesis using wf4 f4 U(7) by auto
  next
    case d
    have "find_document p (st w4) = Some doc" using f4 U(1) by simp
    then have "wf_store (st w4) \<Longrightarrow> q \<noteq> p \<Longrightarrow>
        find_document q (update_checksum did cs (st w4)) = find_document q (st w4)" for q
      using update_checksum_find[of "st w4" p doc q cs] did by simp
    then show ?thesis using d wf4 f4 U(7) wf_update_checksum[of "st w4" did cs]
      by (auto simp: on_store_def)
  qed
  show "out \<noteq> Thrown \<longrightarrow>
           (\<exists>d. find_document p (st w') = Some d \<and> checksum d = Some cs \<and> public d = isPub \<and>
                meta d = reindex_meta sy p \<and> doc_id d = did)"
  proof (cases rule: cases)
    case d
    have "find_document p (st w4) = Some doc" using f4 U(1) by simp
    then have "find_document p (update_checksum did cs (st w4)) = Some (doc\<lparr>checksum := Some cs\<rparr>)"
      using update_checksum_find_self[of p "st w4" doc cs] did by simp
    then show ?thesis using d U did by (auto simp: on_store_def)
  qed auto
  show "out = Thrown \<longrightarrow> find_document p (st w') = find_document p (st w) \<or>
           (\<exists>d. find_document p (st w') = Some d \<and> checksum d = None)"
  proof (cases rule: cases)
    case z
    then show ?thesis by simp
  next
    case a
    then show ?thesis by simp
  next
    case b
    then show ?thesis using f4 U(1,2) by auto
  next
    case c
    then show ?thesis using f4 U(1,2) by auto
  next
    case d
    then show ?thesis by simp
  qed
  show "\<exists>k \<le> length ?xs.
           sections (st w') = sections (st w) @ map (section_row sy did) (take k ?xs) \<and>
           (out \<noteq> Thrown \<longrightarrow> k = length ?xs)"
  proof (cases rule: cases)
    case z
    then show ?thesis by (auto intro!: exI[of _ 0])
  next
    case a
    then show ?thesis by (auto intro!: exI[of _ 0])
  next
    case b
    then show ?thesis using E U(8) by (auto intro!: exI[of _ k])
  next
    case c
    then show ?thesis using E U(8) by (auto intro!: exI[of _ k])
  next
    case d
    then show ?thesis using E U(8)
      by (auto simp: on_store_def update_checksum_def intro!: exI[of _ k])
  qed
qed


lemma delete_old_sections_effect:
  assumes "delete_old_sections fails existing w = (ok, w1)"
  shows "documents (st w1) = documents (st w)" and "next_id (st w1) = next_id (st w)"
    and "trace w1 = trace w @ (case existing of Some d \<Rightarrow> [DeleteSections (doc_id d)] | None \<Rightarrow> [])"
    and "failed_count fails (trace w)
           (case existing of Some d \<Rightarrow> [DeleteSections (doc_id d)] | None \<Rightarrow> []) = (if ok then 0 else 1)"
    and "ok \<Longrightarrow> sections (st w1) =
           (case existing of Some d \<Rightarrow> filter (\<lambda>x. document_id x \<noteq> doc_id d) (sections (st w))
                           | None \<Rightarrow> sections (st w))"
    and "\<not> ok \<Longrightarrow> st w1 = st w"
    and "wf_store (st w) \<Longrightarrow> wf_store (st w1)"
  using assms
  by (auto simp: delete_old_sections_def request_def on_store_def delete_sections_def wf_store_def
           split: option.splits bool.splits if_splits)

lemma reindex_effect:
  assumes run: "reindex sy fails cfg r w p (find_document p (st w)) (cachedRead sy p)
                  (sha256 sy (cachedRead sy p)) (isFileInDirectories sy p publicDirs) = (out, w')"
  defines "did \<equiv> reindex_target (find_document p (st w)) (next_id (st w))"
  defines "full \<equiv> reindex_events sy cfg publicDirs p (find_document p (st w)) (next_id (st w))"
  shows "\<exists>evs. trace w' = trace w @ evs \<and> prefix evs full \<and>
           failed_count fails (trace w) evs = (if out = Thrown then 1 else 0) \<and>
           (out \<noteq> Thrown \<longrightarrow> evs = full) \<and>
           (out = Thrown \<and>
            \<not> prefix evs ((case find_document p (st w) of Some d \<Rightarrow> [DeleteSections (doc_id d)] | None \<Rightarrow> []) @
                          [ParseMarkdown p,
                           UpsertDocument p (reindex_meta sy p) (isFileInDirectories sy p publicDirs)]) \<longrightarrow>
              (\<exists>d. find_document p (st w') = Some d \<and> checksum d = None))"
    and "out \<noteq> Thrown \<longrightarrow>
           out = Done (r\<lparr>successCount := successCount r + 1, updatedCount := updatedCount r + 1\<rparr>)"
    and "wf_store (st w) \<longrightarrow> wf_store (st w') \<and>
           (\<forall>q. q \<noteq> p \<longrightarrow> find_document q (st w') = find_document q (st w))"
    and "out \<noteq> Thrown \<longrightarrow>
           (\<exists>d. find_document p (st w') = Some d \<and> checksum d = Some (sha256 sy (cachedRead sy p)) \<and>
                public d = isFileInDirectories sy p publicDirs \<and>
                meta d = reindex_meta sy p \<and> doc_id d = did)"
    and "out = Thrown \<longrightarrow> find_document p (st w') = find_document p (st w) \<or>
           (\<exists>d. find_document p (st w') = Some d \<and> checksum d = None)"
    and "wf_store (st w) \<and> out \<noteq> Thrown \<longrightarrow>
           sections (st w') = filter (\<lambda>x. document_id x \<noteq> did) (sections (st w)) @
                              map (section_row sy did) (reindex_sections sy cfg p)"
proof -
  let ?ex = "find_document p (st w)"
  let ?del = "case ?ex of Some d \<Rightarrow> [DeleteSections (doc_id d)] | None \<Rightarrow> []"
  let ?cs = "sha256 sy (cachedRead sy p)"
  let ?pub = "isFileInDirectories sy p publicDirs"
  obtain ok1 w1 where del: "delete_old_sections fails ?ex w = (ok1, w1)"
    by (cases "delete_old_sections fails ?ex w")
  note D = delete_old_sections_effect[OF del]
  have f1: "find_document q (st w1) = find_document q (st w)" for q
    using D(1) by (simp add: find_document_def)
  show "\<exists>evs. trace w' = trace w @ evs \<and> prefix evs full \<and>
           failed_count fails (trace w) evs = (if out = Thrown then 1 else 0) \<and>
           (out \<noteq> Thrown \<longrightarrow> evs = full) \<and>
           (out = Thrown \<and>
            \<not> prefix evs ((case find_document p (st w) of Some d \<Rightarrow> [DeleteSections (doc_id d)] | None \<Rightarrow> []) @
                          [ParseMarkdown p,
                           UpsertDocument p (reindex_meta sy p) (isFileInDirectories sy p publicDirs)]) \<longrightarrow>
              (\<exists>d. find_document p (st w') = Some d \<and> checksum d = None))"
  proof (cases ok1)
    case False
    then have "out = Thrown" "w' = w1" using run del by (auto simp: reindex_def)
    then show ?thesis using D(3,4) False
      by (auto simp: full_def reindex_events_def intro!: exI[of _ ?del])
  next
    case True
    then have idx: "index_document sy fails cfg r w1 p (cachedRead sy p) ?cs ?pub = (out, w')"
      using run del by (auto simp: reindex_def)
    from index_document_effect(1)[OF idx] obtain evs where
      "trace w' = trace w1 @ evs"
      "prefix evs ([ParseMarkdown p, UpsertDocument p (reindex_meta sy p) ?pub] @
                   section_events sy did (reindex_sections sy cfg p) @ [UpdateChecksum did ?cs])"
      "failed_count fails (trace w1) evs = (if out = Thrown then 1 else 0)"
      "out \<noteq> Thrown \<longrightarrow> evs = [ParseMarkdown p, UpsertDocument p (reindex_meta sy p) ?pub] @
                   section_events sy did (reindex_sections sy cfg p) @ [UpdateChecksum did ?cs]"
      "out = Thrown \<and> \<not> prefix evs [ParseMarkdown p, UpsertDocument p (reindex_meta sy p) ?pub] \<longrightarrow>
              (\<exists>d. find_document p (st w') = Some d \<and> checksum d = None)"
      using f1 D(2) by (auto simp: did_def)
    then show ?thesis using D(3,4) True
      by (intro exI[of _ "?del @ evs"])
         (auto simp: full_def reindex_events_def failed_count_append did_def)
  qed
  show "out \<noteq> Thrown \<longrightarrow>
           out = Done (r\<lparr>successCount := successCount r + 1, updatedCount := updatedCount r + 1\<rparr>)"
    using run del index_document_effect(2)[of sy fails cfg r w1 p ?cs ?pub out w']
    by (cases ok1) (auto simp: reindex_def)
  show "wf_store (st w) \<longrightarrow> wf_store (st w') \<and>
           (\<forall>q. q \<noteq> p \<longrightarrow> find_document q (st w') = find_document q (st w))"
    using run del index_document_effect(3)[of sy fails cfg r w1 p ?cs ?pub out w'] D(7) f1
    by (cases ok1) (auto simp: reindex_def)
  show "out \<noteq> Thrown \<longrightarrow>
           (\<exists>d. find_document p (st w') = Some d \<and> checksum d = Some ?cs \<and> public d = ?pub \<and>
                meta d = reindex_meta sy p \<and> doc_id d = did)"
    using run del index_document_effect(4)[of sy fails cfg r w1 p ?cs ?pub out w'] f1 D(2)
    by (cases ok1) (auto simp: reindex_def did_def)
  show "out = Thrown \<longrightarrow> find_document p (st w') = find_document p (st w) \<or>
           (\<exists>d. find_document p (st w') = Some d \<and> checksum d = None)"
    using run del index_document_effect(5)[of sy fails cfg r w1 p ?cs ?pub out w'] f1
    by (cases ok1) (auto simp: reindex_def)
  show "wf_store (st w) \<and> out \<noteq> Thrown \<longrightarrow>
           sections (st w') = filter (\<lambda>x. document_id x \<noteq> did) (sections (st w)) @
                              map (section_row sy did) (reindex_sections sy cfg p)"
  proof (intro impI, elim conjE)
    assume wf: "wf_store (st w)" and ok: "out \<noteq> Thrown"
    then have ok1: ok1 using run del by (cases ok1) (auto simp: reindex_def)
    then have idx: "index_document sy fails cfg r w1 p (cachedRead sy p) ?cs ?pub = (out, w')"
      using run del by (auto simp: reindex_def)
    from index_document_effect(6)[OF idx] ok f1 D(2)
    have a: "sections (st w') = sections (st w1) @ map (section_row sy did) (reindex_sections sy cfg p)"
      by (auto simp: did_def)
    have "sections (st w1) = filter (\<lambda>x. document_id x \<noteq> did) (sections (st w))"
    proof (cases ?ex)
      case None
      have "filter (\<lambda>x. document_id x \<noteq> next_id (st w)) (sections (st w)) = sections (st w)"
        using wf by (auto simp: wf_store_def filter_id_conv)
      then show ?thesis using D(5)[OF ok1] None by (simp add: did_def reindex_target_def)
    next
      case (Some d)
      then show ?thesis using D(5)[OF ok1] by (simp add: did_def reindex_target_def)
    qed
    then show "sections (st w') = filter (\<lambda>x. document_id x \<noteq> did) (sections (st w)) @
                              map (section_row sy did) (reindex_sections sy cfg p)"
      using a by simp
  qed
qed


subsection \<open>One file\<close>

lemma process_file_unfold:
  "process_file sy fails cfg publicDirs r w p =
     (if fails (trace w) (SelectDocument p) then (Thrown, w\<lparr>trace := trace w @ [SelectDocument p]\<rparr>)
      else if fails (trace w @ [SelectDocument p]) (CachedRead p)
        then (Thrown, w\<lparr>trace := trace w @ [SelectDocument p, CachedRead p]\<rparr>)
      else if needs_reindex sy p (st w)
        then reindex sy fails cfg r (w\<lparr>trace := trace w @ [SelectDocument p, CachedRead p]\<rparr>) p
               (find_document p (st w)) (cachedRead sy p) (sha256 sy (cachedRead sy p))
               (isFileInDirectories sy p publicDirs)
      else if synced sy publicDirs (st w) p
        then (Done (r\<lparr>successCount := successCount r + 1\<rparr>),
              w\<lparr>trace := trace w @ [SelectDocument p, CachedRead p]\<rparr>)
      else if fails (trace w @ [SelectDocument p, CachedRead p])
                (UpdatePublic (doc_id (the (find_document p (st w)))) (isFileInDirectories sy p publicDirs))
        then (Thrown, w\<lparr>trace := trace w @ [SelectDocument p, CachedRead p,
                UpdatePublic (doc_id (the (find_document p (st w)))) (isFileInDirectories sy p publicDirs)]\<rparr>)
      else (Done (r\<lparr>successCount := successCount r + 1, updatedCount := updatedCount r + 1\<rparr>),
            on_store (update_public (doc_id (the (find_document p (st w))))
                        (isFileInDirectories sy p publicDirs))
              (w\<lparr>trace := trace w @ [SelectDocument p, CachedRead p,
                UpdatePublic (doc_id (the (find_document p (st w)))) (isFileInDirectories sy p publicDirs)]\<rparr>)))"
  by (auto simp: process_file_def request_def needs_reindex_def synced_def Let_def
           split: option.splits bool.splits)

lemma process_file_effect:
  assumes run: "process_file sy fails cfg publicDirs r w p = (out, w')"
  shows "\<exists>evs. trace w' = trace w @ SelectDocument p # evs \<and>
           failed_count fails (trace w) (SelectDocument p # evs) = (if out = Thrown then 1 else 0)"
    and "wf_store (st w) \<longrightarrow> wf_store (st w') \<and>
           (\<forall>q. q \<noteq> p \<longrightarrow> find_document q (st w') = find_document q (st w))"
    and "out \<noteq> Thrown \<longrightarrow> synced sy publicDirs (st w') p"
    and "out = Thrown \<longrightarrow> find_document p (st w') = find_document p (st w) \<or>
           (\<exists>d. find_document p (st w') = Some d \<and> checksum d = None)"
    and "out \<noteq> Thrown \<longrightarrow>
           (\<exists>u. u \<le> 1 \<and> out = Done (r\<lparr>successCount := successCount r + 1,
                                          updatedCount := updatedCount r + u\<rparr>))"
proof -
  let ?sel = "SelectDocument p" and ?rd = "CachedRead p"
  let ?pub = "isFileInDirectories sy p publicDirs"
  let ?cs = "sha256 sy (cachedRead sy p)"
  let ?w2 = "w\<lparr>trace := trace w @ [?sel, ?rd]\<rparr>"
  let ?up = "UpdatePublic (doc_id (the (find_document p (st w)))) ?pub"
  note unf = process_file_unfold[of sy fails cfg publicDirs r w p, unfolded run]
  consider (a) "fails (trace w) ?sel" "out = Thrown" "w' = w\<lparr>trace := trace w @ [?sel]\<rparr>"
    | (b) "\<not> fails (trace w) ?sel" "fails (trace w @ [?sel]) ?rd" "out = Thrown" "w' = ?w2"
    | (c) "\<not> fails (trace w) ?sel" "\<not> fails (trace w @ [?sel]) ?rd" "needs_reindex sy p (st w)"
          "reindex sy fails cfg r ?w2 p (find_document p (st ?w2)) (cachedRead sy p) ?cs ?pub = (out, w')"
    | (d) "\<not> fails (trace w) ?sel" "\<not> fails (trace w @ [?sel]) ?rd" "synced sy publicDirs (st w) p"
          "out = Done (r\<lparr>successCount := successCount r + 1\<rparr>)" "w' = ?w2"
    | (e) "\<not> fails (trace w) ?sel" "\<not> fails (trace w @ [?sel]) ?rd" "\<not> needs_reindex sy p (st w)"
          "fails (trace w @ [?sel, ?rd]) ?up" "out = Thrown" "w' = w\<lparr>trace := trace w @ [?sel, ?rd, ?up]\<rparr>"
    | (f) "\<not> fails (trace w) ?sel" "\<not> fails (trace w @ [?sel]) ?rd" "\<not> needs_reindex sy p (st w)"
          "\<not> fails (trace w @ [?sel, ?rd]) ?up"
          "out = Done (r\<lparr>successCount := successCount r + 1, updatedCount := updatedCount r + 1\<rparr>)"
          "w' = on_store (update_public (doc_id (the (find_document p (st w)))) ?pub)
                  (w\<lparr>trace := trace w @ [?sel, ?rd, ?up]\<rparr>)"
    using unf by (auto split: if_splits)
  note cases = this
  have ex: "\<not> needs_reindex sy p (st w) \<Longrightarrow>
      \<exists>d. find_document p (st w) = Some d \<and> checksum d = Some ?cs"
    by (auto simp: needs_reindex_def split: option.splits)
  show "\<exists>evs. trace w' = trace w @ ?sel # evs \<and>
           failed_count fails (trace w) (?sel # evs) = (if out = Thrown then 1 else 0)"
  proof (cases rule: cases)
    case c
    from reindex_effect(1)[OF c(4)] obtain evs where
      "trace w' = trace w @ [?sel, ?rd] @ evs"
      "failed_count fails (trace w @ [?sel, ?rd]) evs = (if out = Thrown then 1 else 0)"
      by auto
    then show ?thesis using c(1,2)
      by (intro exI[of _ "?rd # evs"]) auto
  qed (auto simp: on_store_def)
  show "wf_store (st w) \<longrightarrow> wf_store (st w') \<and>
           (\<forall>q. q \<noteq> p \<longrightarrow> find_document q (st w') = find_document q (st w))"
  proof (cases rule: cases)
    case c
    then show ?thesis using reindex_effect(3)[OF c(4)] by simp
  next
    case f
    from ex[OF f(3)] obtain d where d: "find_document p (st w) = Some d" by auto
    show ?thesis using f d wf_update_public[of "st w" "doc_id d" ?pub]
        update_public_find[of "st w" p d _ ?pub]
      by (auto simp: on_store_def)
  qed auto
  show "out \<noteq> Thrown \<longrightarrow> synced sy publicDirs (st w') p"
  proof (cases rule: cases)
    case c
    then show ?thesis using reindex_effect(4)[OF c(4)] by (auto simp: synced_def)
  next
    case f
    from ex[OF f(3)] obtain d where d: "find_document p (st w) = Some d" "checksum d = Some ?cs" by auto
    show ?thesis using f d update_public_find_self[of p "st w" d ?pub]
      by (auto simp: on_store_def synced_def)
  qed auto
  show "out = Thrown \<longrightarrow> find_document p (st w') = find_document p (st w) \<or>
           (\<exists>d. find_document p (st w') = Some d \<and> checksum d = None)"
  proof (cases rule: cases)
    case c
    then show ?thesis using reindex_effect(5)[OF c(4)] by simp
  qed auto
  show "out \<noteq> Thrown \<longrightarrow>
           (\<exists>u. u \<le> 1 \<and> out = Done (r\<lparr>successCount := successCount r + 1,
                                          updatedCount := updatedCount r + u\<rparr>))"
  proof (cases rule: cases)
    case c
    then show ?thesis using reindex_effect(2)[OF c(4)] by (auto intro!: exI[of _ 1])
  next
    case d
    then show ?thesis by (auto intro!: exI[of _ 0])
  next
    case f
    then show ?thesis by (auto intro!: exI[of _ 1])
  qed auto
qed


text \<open>The re-index branch of one file, once the lookup and the read have succeeded.\<close>

lemma process_file_reindex:
  assumes need: "needs_reindex sy p (st w)"
    and sel: "\<not> fails (trace w) (SelectDocument p)"
    and rd: "\<not> fails (trace w @ [SelectDocument p]) (CachedRead p)"
    and run: "process_file sy fails cfg publicDirs r w p = (out, w')"
  shows "reindex sy fails cfg r (w\<lparr>trace := trace w @ [SelectDocument p, CachedRead p]\<rparr>) p
           (find_document p (st (w\<lparr>trace := trace w @ [SelectDocument p, CachedRead p]\<rparr>)))
           (cachedRead sy p) (sha256 sy (cachedRead sy p))
           (isFileInDirectories sy p publicDirs) = (out, w')"
  using process_file_unfold[of sy fails cfg publicDirs r w p] assms by simp

lemma set_section_events:
  "e \<in> set (section_events sy did xs) \<Longrightarrow> event_file e = None"
  by (auto simp: section_events_def)

lemma set_reindex_events:
  "e \<in> set (reindex_events sy cfg publicDirs p ex nid) \<Longrightarrow> event_file e = None \<or> event_file e = Some p"
  by (auto simp: reindex_events_def dest: set_section_events split: option.splits)

lemma process_file_files:
  assumes run: "process_file sy fails cfg publicDirs r w p = (out, w')"
  shows "\<exists>evs. trace w' = trace w @ evs \<and> (\<forall>e \<in> set evs. event_file e = None \<or> event_file e = Some p)"
proof -
  let ?sel = "SelectDocument p" and ?rd = "CachedRead p"
  let ?w2 = "w\<lparr>trace := trace w @ [?sel, ?rd]\<rparr>"
  show ?thesis
  proof (cases "\<not> fails (trace w) ?sel \<and> \<not> fails (trace w @ [?sel]) ?rd \<and> needs_reindex sy p (st w)")
    case True
    then have "reindex sy fails cfg r ?w2 p (find_document p (st ?w2)) (cachedRead sy p)
        (sha256 sy (cachedRead sy p)) (isFileInDirectories sy p publicDirs) = (out, w')"
      using process_file_reindex[OF _ _ _ run] by simp
    from reindex_effect(1)[OF this] obtain evs where
      e: "trace w' = trace w @ [?sel, ?rd] @ evs"
         "prefix evs (reindex_events sy cfg publicDirs p (find_document p (st w)) (next_id (st w)))"
      by auto
    then have "set evs \<subseteq> set (reindex_events sy cfg publicDirs p (find_document p (st w)) (next_id (st w)))"
      by (auto simp: prefix_def)
    then show ?thesis using e(1) set_reindex_events
      by (intro exI[of _ "[?sel, ?rd] @ evs"]) fastforce
  next
    case False
    then show ?thesis
      using process_file_unfold[of sy fails cfg publicDirs r w p] run
      by (auto simp: on_store_def split: if_splits)
  qed
qed

lemma sync_file_effect:
  assumes run: "sync_file sy fails cfg publicDirs (r, w) p = (r', w')"
  shows "\<exists>evs. trace w' = trace w @ SelectDocument p # evs \<and>
           failed_count fails (trace w) (SelectDocument p # evs) \<le> 1 \<and>
           errorCount r' = errorCount r + failed_count fails (trace w) (SelectDocument p # evs)"
    and "wf_store (st w) \<longrightarrow> wf_store (st w') \<and>
           (\<forall>q. q \<noteq> p \<longrightarrow> find_document q (st w') = find_document q (st w))"
    and "errorCount r' = errorCount r \<or> errorCount r' = errorCount r + 1"
    and "errorCount r' = errorCount r \<longrightarrow> synced sy publicDirs (st w') p \<and>
           successCount r' = successCount r + 1 \<and> updatedCount r' \<le> updatedCount r + 1 \<and>
           updatedCount r \<le> updatedCount r' \<and> deleteCount r' = deleteCount r"
    and "errorCount r' \<noteq> errorCount r \<longrightarrow>
           successCount r' = successCount r \<and> updatedCount r' = updatedCount r \<and>
           deleteCount r' = deleteCount r \<and>
           (find_document p (st w') = find_document p (st w) \<or>
            (\<exists>d. find_document p (st w') = Some d \<and> checksum d = None))"
proof -
  obtain out where pf: "process_file sy fails cfg publicDirs r w p = (out, w')"
    using run by (auto simp: sync_file_def split: prod.splits attempt.splits)
  note P = process_file_effect[OF pf]
  have res: "(out = Thrown \<and> r' = r\<lparr>errorCount := errorCount r + 1\<rparr>) \<or>
       (\<exists>u. u \<le> 1 \<and> out = Done r' \<and>
            r' = r\<lparr>successCount := successCount r + 1, updatedCount := updatedCount r + u\<rparr>)"
    using run pf P(5) by (cases out) (auto simp: sync_file_def)
  show "\<exists>evs. trace w' = trace w @ SelectDocument p # evs \<and>
           failed_count fails (trace w) (SelectDocument p # evs) \<le> 1 \<and>
           errorCount r' = errorCount r + failed_count fails (trace w) (SelectDocument p # evs)"
    using P(1) res by auto
  show "wf_store (st w) \<longrightarrow> wf_store (st w') \<and>
           (\<forall>q. q \<noteq> p \<longrightarrow> find_document q (st w') = find_document q (st w))"
    using P(2) .
  show "errorCount r' = errorCount r \<or> errorCount r' = errorCount r + 1"
    using res by auto
  show "errorCount r' = errorCount r \<longrightarrow> synced sy publicDirs (st w') p \<and>
           successCount r' = successCount r + 1 \<and> updatedCount r' \<le> updatedCount r + 1 \<and>
           updatedCount r \<le> updatedCount r' \<and> deleteCount r' = deleteCount r"
    using res P(3) by auto
  show "errorCount r' \<noteq> errorCount r \<longrightarrow>
           successCount r' = successCount r \<and> updatedCount r' = updatedCount r \<and>
           deleteCount r' = deleteCount r \<and>
           (find_document p (st w') = find_document p (st w) \<or>
            (\<exists>d. find_document p (st w') = Some d \<and> checksum d = None))"
    using res P(4) by auto
qed

subsection \<open>The loop over the files\<close>

lemma sync_files_effect:
  assumes "sync_files sy fails cfg publicDirs ps (r, w) = (r', w')"
  shows "errorCount r \<le> errorCount r'"
    and "successCount r' + errorCount r' = successCount r + errorCount r + length ps"
    and "deleteCount r' = deleteCount r"
    and "wf_store (st w) \<longrightarrow> wf_store (st w') \<and>
           (\<forall>q. q \<notin> set ps \<longrightarrow> find_document q (st w') = find_document q (st w))"
    and "\<exists>evs. trace w' = trace w @ evs \<and> SelectDocument ` set ps \<subseteq> set evs \<and>
           (\<forall>e \<in> set evs. event_file e = None \<or> event_file e \<in> Some ` set ps)"
  using assms
proof (induction ps arbitrary: r w)
  case Nil
  { case 1 then show ?case by simp }
  { case 2 then show ?case by simp }
  { case 3 then show ?case by simp }
  { case 4 then show ?case by simp }
  { case 5 then show ?case by simp }
next
  case (Cons p ps)
  { fix r w
    assume run: "sync_files sy fails cfg publicDirs (p # ps) (r, w) = (r', w')"
    obtain r1 w1 where one: "sync_file sy fails cfg publicDirs (r, w) p = (r1, w1)"
      by (cases "sync_file sy fails cfg publicDirs (r, w) p")
    then have rest: "sync_files sy fails cfg publicDirs ps (r1, w1) = (r', w')"
      using run by simp
    note S = sync_file_effect[OF one]
    note I = Cons.IH[OF rest]
    have a: "errorCount r \<le> errorCount r'" using S(3) I(1) by auto
    have b: "successCount r' + errorCount r' = successCount r + errorCount r + length (p # ps)"
      using S(3,4,5) I(2) by auto
    have c: "deleteCount r' = deleteCount r" using S(3,4,5) I(3) by auto
    have d: "wf_store (st w) \<longrightarrow> wf_store (st w') \<and>
           (\<forall>q. q \<notin> set (p # ps) \<longrightarrow> find_document q (st w') = find_document q (st w))"
      using S(2) I(4) by auto
    obtain e1 where e1: "trace w1 = trace w @ SelectDocument p # e1" using S(1) by auto
    obtain e1' where e1': "trace w1 = trace w @ e1'" "\<forall>e \<in> set e1'. event_file e = None \<or> event_file e = Some p"
      using process_file_files[of sy fails cfg publicDirs r w p] one
      by (auto simp: sync_file_def split: prod.splits attempt.splits)
    obtain e2 where e2: "trace w' = trace w1 @ e2" "SelectDocument ` set ps \<subseteq> set e2"
      "\<forall>e \<in> set e2. event_file e = None \<or> event_file e \<in> Some ` set ps"
      using I(5) by auto
    have e: "\<exists>evs. trace w' = trace w @ evs \<and> SelectDocument ` set (p # ps) \<subseteq> set evs \<and>
           (\<forall>e \<in> set evs. event_file e = None \<or> event_file e \<in> Some ` set (p # ps))"
      using e1 e1' e2 by (intro exI[of _ "e1' @ e2"]) auto
    note a b c d e }
  note step = this
  { case 1 then show ?case using step(1) by blast }
  { case 2 then show ?case using step(2) by blast }
  { case 3 then show ?case using step(3) by blast }
  { case 4 then show ?case using step(4) by blast }
  { case 5 then show ?case using step(5) by blast }
qed


lemma sync_files_clean:
  assumes "sync_files sy fails cfg publicDirs ps (r, w) = (r', w')"
    and "errorCount r' = errorCount r" and "wf_store (st w)"
  shows "\<forall>p \<in> set ps. synced sy publicDirs (st w') p"
  using assms
proof (induction ps arbitrary: r w)
  case Nil
  then show ?case by simp
next
  case (Cons p ps)
  obtain r1 w1 where one: "sync_file sy fails cfg publicDirs (r, w) p = (r1, w1)"
    by (cases "sync_file sy fails cfg publicDirs (r, w) p")
  then have rest: "sync_files sy fails cfg publicDirs ps (r1, w1) = (r', w')"
    using Cons.prems(1) by simp
  note S = sync_file_effect[OF one]
  note R = sync_files_effect[OF rest]
  have e1: "errorCount r1 = errorCount r" using S(3) R(1) Cons.prems(2) by auto
  have wf1: "wf_store (st w1)" using S(2) Cons.prems(3) by simp
  have tail: "\<forall>q \<in> set ps. synced sy publicDirs (st w') q"
    using Cons.IH[OF rest _ wf1] e1 Cons.prems(2) by simp
  have "synced sy publicDirs (st w') p"
  proof (cases "p \<in> set ps")
    case True
    then show ?thesis using tail by simp
  next
    case False
    then have "find_document p (st w') = find_document p (st w1)" using R(4) wf1 by simp
    then show ?thesis using S(4) e1 by (simp add: synced_def)
  qed
  then show ?case using tail by simp
qed

text \<open>A pass over files that are all in sync, with every request answered, writes nothing.\<close>

lemma sync_files_skip:
  assumes "\<forall>p \<in> set ps. synced sy publicDirs (st w) p" and "\<forall>tr ev. \<not> fails tr ev"
  shows "sync_files sy fails cfg publicDirs ps (r, w) =
           (r\<lparr>successCount := successCount r + length ps\<rparr>,
            w\<lparr>trace := trace w @ concat (map (\<lambda>p. [SelectDocument p, CachedRead p]) ps)\<rparr>)"
  using assms(1)
proof (induction ps arbitrary: r w)
  case Nil
  then show ?case by simp
next
  case (Cons p ps)
  have sp: "synced sy publicDirs (st w) p" using Cons.prems by simp
  then have nr: "\<not> needs_reindex sy p (st w)"
    by (auto simp: synced_def needs_reindex_def split: option.splits)
  have one: "sync_file sy fails cfg publicDirs (r, w) p =
      (r\<lparr>successCount := successCount r + 1\<rparr>, w\<lparr>trace := trace w @ [SelectDocument p, CachedRead p]\<rparr>)"
    using sp nr assms(2) by (simp add: sync_file_def process_file_unfold)
  have "\<forall>q \<in> set ps. synced sy publicDirs (st (w\<lparr>trace := trace w @ [SelectDocument p, CachedRead p]\<rparr>)) q"
    using Cons.prems by simp
  from Cons.IH[OF this] show ?case using one by simp
qed

subsection \<open>The reconciliation pass\<close>

lemma delete_dangling_effect:
  assumes "delete_dangling fails files ds (r, w) = (r', w')"
  shows "trace w' = trace w @ map (\<lambda>d. DeleteDocument (path d)) (dangling files ds)"
    and "deleteCount r' = deleteCount r + length (dangling files ds)"
    and "errorCount r' = errorCount r +
           failed_count fails (trace w) (map (\<lambda>d. DeleteDocument (path d)) (dangling files ds))"
    and "successCount r' = successCount r" and "updatedCount r' = updatedCount r"
    and "\<forall>p \<in> set files. find_document p (st w') = find_document p (st w)"
    and "set (documents (st w')) \<subseteq> set (documents (st w))"
    and "wf_store (st w) \<longrightarrow> wf_store (st w')"
  using assms
proof (induction ds arbitrary: r w)
  case Nil
  { case 1 then show ?case by (simp add: dangling_def) }
  { case 2 then show ?case by (simp add: dangling_def) }
  { case 3 then show ?case by (simp add: dangling_def) }
  { case 4 then show ?case by simp }
  { case 5 then show ?case by simp }
  { case 6 then show ?case by simp }
  { case 7 then show ?case by simp }
  { case 8 then show ?case by simp }
next
  case (Cons d ds)
  { fix r w
    assume run: "delete_dangling fails files (d # ds) (r, w) = (r', w')"
    let ?ev = "DeleteDocument (path d)"
    let ?w1 = "w\<lparr>trace := trace w @ [?ev]\<rparr>"
    consider (live) "path d \<in> set files" "delete_dangling fails files ds (r, w) = (r', w')"
      | (failed) "path d \<notin> set files" "fails (trace w) ?ev"
          "delete_dangling fails files ds
             (r\<lparr>errorCount := errorCount r + 1, deleteCount := deleteCount r + 1\<rparr>, ?w1) = (r', w')"
      | (deleted) "path d \<notin> set files" "\<not> fails (trace w) ?ev"
          "delete_dangling fails files ds
             (r\<lparr>deleteCount := deleteCount r + 1\<rparr>, on_store (delete_document (path d)) ?w1) = (r', w')"
      using run by (auto simp: request_def split: if_splits bool.splits)
    then have "trace w' = trace w @ map (\<lambda>d. DeleteDocument (path d)) (dangling files (d # ds)) \<and>
       deleteCount r' = deleteCount r + length (dangling files (d # ds)) \<and>
       errorCount r' = errorCount r +
           failed_count fails (trace w) (map (\<lambda>d. DeleteDocument (path d)) (dangling files (d # ds))) \<and>
       successCount r' = successCount r \<and> updatedCount r' = updatedCount r \<and>
       (\<forall>p \<in> set files. find_document p (st w') = find_document p (st w)) \<and>
       set (documents (st w')) \<subseteq> set (documents (st w)) \<and>
       (wf_store (st w) \<longrightarrow> wf_store (st w'))"
    proof cases
      case live
      note I = Cons.IH[OF live(2)]
      show ?thesis using live(1) I by (simp add: dangling_def)
    next
      case failed
      note I = Cons.IH[OF failed(3)]
      show ?thesis using failed(1,2) I by (simp add: dangling_def)
    next
      case deleted
      note I = Cons.IH[OF deleted(3)]
      have "\<forall>p \<in> set files. find_document p (delete_document (path d) (st w)) = find_document p (st w)"
        using deleted(1) by (auto simp: find_delete_document)
      moreover have "set (documents (delete_document (path d) (st w))) \<subseteq> set (documents (st w))"
        by (auto simp: delete_document_def)
      ultimately show ?thesis using deleted(1,2) I wf_delete_document[of "st w" "path d"]
        by (auto simp: dangling_def on_store_def)
    qed }
  note step = this
  { case 1 then show ?case using step by blast }
  { case 2 then show ?case using step by blast }
  { case 3 then show ?case using step by blast }
  { case 4 then show ?case using step by blast }
  { case 5 then show ?case using step by blast }
  { case 6 then show ?case using step by blast }
  { case 7 then show ?case using step by blast }
  { case 8 then show ?case using step by blast }
qed


lemma succeeded_all: "failed_count fails tr evs = 0 \<Longrightarrow> succeeded fails tr evs = evs"
  by (induction evs arbitrary: tr) (auto split: if_splits)

lemma delete_dangling_documents:
  assumes "delete_dangling fails files ds (r, w) = (r', w')"
  shows "documents (st w') =
     filter (\<lambda>x. DeleteDocument (path x) \<notin>
                   set (succeeded fails (trace w) (map (\<lambda>d. DeleteDocument (path d)) (dangling files ds))))
       (documents (st w))"
  using assms
proof (induction ds arbitrary: r w)
  case Nil
  then show ?case by (simp add: dangling_def)
next
  case (Cons d ds)
  let ?ev = "DeleteDocument (path d)"
  let ?w1 = "w\<lparr>trace := trace w @ [?ev]\<rparr>"
  consider (live) "path d \<in> set files" "delete_dangling fails files ds (r, w) = (r', w')"
    | (failed) "path d \<notin> set files" "fails (trace w) ?ev"
        "delete_dangling fails files ds
           (r\<lparr>errorCount := errorCount r + 1, deleteCount := deleteCount r + 1\<rparr>, ?w1) = (r', w')"
    | (deleted) "path d \<notin> set files" "\<not> fails (trace w) ?ev"
        "delete_dangling fails files ds
           (r\<lparr>deleteCount := deleteCount r + 1\<rparr>, on_store (delete_document (path d)) ?w1) = (r', w')"
    using Cons.prems by (auto simp: request_def split: if_splits bool.splits)
  then show ?case
  proof cases
    case live
    then show ?thesis using Cons.IH[OF live(2)] by (simp add: dangling_def)
  next
    case failed
    then show ?thesis using Cons.IH[OF failed(3)] by (simp add: dangling_def)
  next
    case deleted
    then show ?thesis using Cons.IH[OF deleted(3)]
      by (auto simp: dangling_def on_store_def delete_document_def intro: filter_cong)
  qed
qed

lemma reconcile_effect:
  assumes "reconcile fails files (r, w) = (r', w')"
  shows "fails (trace w) SelectAllDocuments \<longrightarrow>
           r' = r\<lparr>errorCount := errorCount r + 1\<rparr> \<and> w' = w\<lparr>trace := trace w @ [SelectAllDocuments]\<rparr>"
    and "\<not> fails (trace w) SelectAllDocuments \<longrightarrow>
           delete_dangling fails files (documents (st w))
             (r, w\<lparr>trace := trace w @ [SelectAllDocuments]\<rparr>) = (r', w')"
  using assms by (auto simp: reconcile_def request_def split: bool.splits)

lemma dangling_requests_filter:
  "filter (\<lambda>x. DeleteDocument (path x) \<notin> set (map (\<lambda>d. DeleteDocument (path d)) (dangling files ds))) ds =
   filter (\<lambda>x. path x \<in> set files) ds"
  by (rule filter_cong) (auto simp: dangling_def)

lemma reconcile_clean:
  assumes "reconcile fails files (r, w) = (r', w')" and "errorCount r' = errorCount r"
  shows "documents (st w') = filter (\<lambda>x. path x \<in> set files) (documents (st w))"
    and "\<forall>p \<in> set files. find_document p (st w') = find_document p (st w)"
proof -
  have ok: "\<not> fails (trace w) SelectAllDocuments"
    using reconcile_effect(1)[OF assms(1)] assms(2) by auto
  let ?w1 = "w\<lparr>trace := trace w @ [SelectAllDocuments]\<rparr>"
  have dd: "delete_dangling fails files (documents (st w)) (r, ?w1) = (r', w')"
    using reconcile_effect(2)[OF assms(1)] ok by simp
  have "failed_count fails (trace ?w1)
          (map (\<lambda>d. DeleteDocument (path d)) (dangling files (documents (st w)))) = 0"
    using delete_dangling_effect(3)[OF dd] assms(2) by simp
  then show "documents (st w') = filter (\<lambda>x. path x \<in> set files) (documents (st w))"
    using delete_dangling_documents[OF dd] dangling_requests_filter[of files "documents (st w)"]
    by (simp add: succeeded_all)
  show "\<forall>p \<in> set files. find_document p (st w') = find_document p (st w)"
    using delete_dangling_effect(6)[OF dd] by simp
qed

lemma reconcile_nothing:
  assumes "\<forall>d \<in> set (documents (st w)). path d \<in> set files" and "\<not> fails (trace w) SelectAllDocuments"
  shows "reconcile fails files (r, w) = (r, w\<lparr>trace := trace w @ [SelectAllDocuments]\<rparr>)"
proof -
  have "delete_dangling fails files ds rw = rw" if "\<forall>d \<in> set ds. path d \<in> set files" for ds rw
    using that by (induction ds) auto
  then show ?thesis using assms by (simp add: reconcile_def request_def)
qed

lemma reconcile_errors: "reconcile fails files (r, w) = (r', w') \<Longrightarrow> errorCount r \<le> errorCount r'"
  using reconcile_effect[of fails files r w r' w']
    delete_dangling_effect(3)[of fails files "documents (st w)" r "w\<lparr>trace := trace w @ [SelectAllDocuments]\<rparr>" r' w']
  by (cases "fails (trace w) SelectAllDocuments") auto

section \<open>The properties\<close>

subsection \<open>Attempted deletions are counted\<close>

lemma stored_reconcile_failing:
  "reconcile deletions_fail [''Public/n'', ''x''] (zero_result, stored_world) =
     (zero_result\<lparr>errorCount := 1, deleteCount := 1\<rparr>,
      stored_world\<lparr>trace := [SelectAllDocuments, DeleteDocument ''gone'']\<rparr>)"
  by code_simp

text \<open>
  C10. In the reconciliation pass, once the full scan has succeeded, \<open>deleteCount\<close> grows
  by the number of dangling documents found, one deletion request being sent for each,
  and \<open>errorCount\<close> grows by the number of those requests that fail. A deletion that
  fails increments both counters and leaves the store as it was: \<open>deleteCount\<close> counts
  the deletions attempted, not the deletions that succeeded.
\<close>

theorem deleteCount_counts_attempted_deletions:
  assumes "reconcile fails files (r, w) = (r', w')"
    and "\<not> fails (trace w) SelectAllDocuments"
  shows "deleteCount r' = deleteCount r + length (dangling files (documents (st w))) \<and>
         trace w' = trace w @ SelectAllDocuments # deletion_requests files (documents (st w)) \<and>
         errorCount r' = errorCount r +
           failed_count fails (trace w @ [SelectAllDocuments])
             (deletion_requests files (documents (st w))) \<and>
         (path d \<notin> set files \<and> fails (trace wx) (DeleteDocument (path d)) \<longrightarrow>
            delete_dangling fails files [d] (rx, wx) =
              (rx\<lparr>errorCount := errorCount rx + 1, deleteCount := deleteCount rx + 1\<rparr>,
               wx\<lparr>trace := trace wx @ [DeleteDocument (path d)]\<rparr>))"
proof -
  let ?w1 = "w\<lparr>trace := trace w @ [SelectAllDocuments]\<rparr>"
  have dd: "delete_dangling fails files (documents (st w)) (r, ?w1) = (r', w')"
    using reconcile_effect(2)[OF assms(1)] assms(2) by simp
  note D = delete_dangling_effect[OF dd]
  have "path d \<notin> set files \<and> fails (trace wx) (DeleteDocument (path d)) \<longrightarrow>
            delete_dangling fails files [d] (rx, wx) =
              (rx\<lparr>errorCount := errorCount rx + 1, deleteCount := deleteCount rx + 1\<rparr>,
               wx\<lparr>trace := trace wx @ [DeleteDocument (path d)]\<rparr>)"
    by (simp add: request_def)
  then show ?thesis using D(1,2,3) by (simp add: deletion_requests_def)
qed

text \<open>
  The store of \<open>stored_world\<close> with the files \<open>Public/n\<close> and \<open>x\<close>: the document \<open>gone\<close>
  is dangling, its deletion fails, it stays in the store and is counted as deleted.
\<close>

theorem deleteCount_counts_attempted_deletions_witness:
  "deleteCount (fst (reconcile deletions_fail [''Public/n'', ''x''] (zero_result, stored_world))) = 1 \<and>
   errorCount (fst (reconcile deletions_fail [''Public/n'', ''x''] (zero_result, stored_world))) = 1 \<and>
   documents (st (snd (reconcile deletions_fail [''Public/n'', ''x''] (zero_result, stored_world)))) =
     documents (st stored_world) \<and>
   length (dangling [''Public/n'', ''x''] (documents (st stored_world))) = 1 \<and>
   delete_dangling deletions_fail [''Public/n'', ''x''] [documents (st stored_world) ! 1]
       (zero_result, stored_world) =
     (zero_result\<lparr>errorCount := errorCount zero_result + 1, deleteCount := deleteCount zero_result + 1\<rparr>,
      stored_world\<lparr>trace := trace stored_world @ [DeleteDocument (path (documents (st stored_world) ! 1))]\<rparr>)"
proof -
  let ?run = "reconcile deletions_fail [''Public/n'', ''x''] (zero_result, stored_world)"
  let ?d = "documents (st stored_world) ! 1"
  have h1: "?run = (fst ?run, snd ?run)" by simp
  have h2: "\<not> deletions_fail (trace stored_world) SelectAllDocuments" by code_simp
  have h3: "path ?d \<notin> set [''Public/n'', ''x'']" by code_simp
  have h4: "deletions_fail (trace stored_world) (DeleteDocument (path ?d))" by code_simp
  have n: "length (dangling [''Public/n'', ''x''] (documents (st stored_world))) = 1" by code_simp
  have z: "deleteCount zero_result = 0" by code_simp
  note T = deleteCount_counts_attempted_deletions[OF h1 h2, where d = ?d and wx = stored_world and rx = zero_result]
  have "deleteCount (fst ?run) = 1" using T n z by simp
  moreover have "delete_dangling deletions_fail [''Public/n'', ''x''] [?d] (zero_result, stored_world) =
     (zero_result\<lparr>errorCount := errorCount zero_result + 1, deleteCount := deleteCount zero_result + 1\<rparr>,
      stored_world\<lparr>trace := trace stored_world @ [DeleteDocument (path ?d)]\<rparr>)"
    using T h3 h4 by blast
  ultimately show ?thesis using n by (simp add: stored_reconcile_failing)
qed

subsection \<open>Reconciliation\<close>

text \<open>
  C4. The reconciliation pass runs on the state the per-document pass leaves, with the
  live, non-excluded files. When the full scan fails, \<open>errorCount\<close> is incremented and
  the sync returns with nothing deleted. Otherwise one deletion request is sent for every
  stored document whose path is no live file, whatever happened to the requests before
  it; each one is counted in \<open>deleteCount\<close>, each failed one in \<open>errorCount\<close>; the
  documents left in the store are those no successful request named, and when no
  request failed they are exactly the documents of the live files.
\<close>

theorem reconciliation_deletes_dangling_documents:
  assumes pass: "sync_files sy fails cfg publicDirs (live_files sy excludeDirs vault)
                   (zero_result, w0) = (r, w)"
    and run: "generateEmbeddings sy fails cfg excludeDirs publicDirs vault w0 = (r', w')"
  shows "(fails (trace w) SelectAllDocuments \<longrightarrow>
            r' = r\<lparr>errorCount := errorCount r + 1\<rparr> \<and>
            w' = w\<lparr>trace := trace w @ [SelectAllDocuments]\<rparr>) \<and>
         (\<not> fails (trace w) SelectAllDocuments \<longrightarrow>
            trace w' = trace w @ SelectAllDocuments #
              deletion_requests (live_files sy excludeDirs vault) (documents (st w)) \<and>
            documents (st w') =
              filter (\<lambda>x. DeleteDocument (path x) \<notin>
                             set (succeeded fails (trace w @ [SelectAllDocuments])
                                    (deletion_requests (live_files sy excludeDirs vault)
                                       (documents (st w)))))
                (documents (st w)) \<and>
            errorCount r' = errorCount r +
              failed_count fails (trace w @ [SelectAllDocuments])
                (deletion_requests (live_files sy excludeDirs vault) (documents (st w))) \<and>
            deleteCount r' = deleteCount r +
              length (deletion_requests (live_files sy excludeDirs vault) (documents (st w))) \<and>
            (failed_count fails (trace w @ [SelectAllDocuments])
                (deletion_requests (live_files sy excludeDirs vault) (documents (st w))) = 0 \<longrightarrow>
               documents (st w') =
                 filter (\<lambda>x. path x \<in> set (live_files sy excludeDirs vault)) (documents (st w))))"
proof -
  let ?files = "live_files sy excludeDirs vault"
  let ?w1 = "w\<lparr>trace := trace w @ [SelectAllDocuments]\<rparr>"
  let ?reqs = "deletion_requests ?files (documents (st w))"
  have rec: "reconcile fails ?files (r, w) = (r', w')"
    using pass run by (simp add: generateEmbeddings_def zero_result_def Let_def)
  have a: "fails (trace w) SelectAllDocuments \<longrightarrow>
            r' = r\<lparr>errorCount := errorCount r + 1\<rparr> \<and> w' = ?w1"
    using reconcile_effect(1)[OF rec] .
  have b: "trace w' = trace w @ SelectAllDocuments # ?reqs \<and>
        documents (st w') =
          filter (\<lambda>x. DeleteDocument (path x) \<notin> set (succeeded fails (trace w @ [SelectAllDocuments]) ?reqs))
            (documents (st w)) \<and>
        errorCount r' = errorCount r + failed_count fails (trace w @ [SelectAllDocuments]) ?reqs \<and>
        deleteCount r' = deleteCount r + length ?reqs \<and>
        (failed_count fails (trace w @ [SelectAllDocuments]) ?reqs = 0 \<longrightarrow>
           documents (st w') = filter (\<lambda>x. path x \<in> set ?files) (documents (st w)))"
    if ok: "\<not> fails (trace w) SelectAllDocuments"
  proof -
    have dd: "delete_dangling fails ?files (documents (st w)) (r, ?w1) = (r', w')"
      using reconcile_effect(2)[OF rec] ok by simp
    note D = delete_dangling_effect[OF dd]
    have docs: "documents (st w') =
          filter (\<lambda>x. DeleteDocument (path x) \<notin> set (succeeded fails (trace w @ [SelectAllDocuments]) ?reqs))
            (documents (st w))"
      using delete_dangling_documents[OF dd] by (simp add: deletion_requests_def)
    have "documents (st w') = filter (\<lambda>x. path x \<in> set ?files) (documents (st w))"
      if "failed_count fails (trace w @ [SelectAllDocuments]) ?reqs = 0"
      using docs succeeded_all[OF that] dangling_requests_filter[of ?files "documents (st w)"]
      by (simp add: deletion_requests_def)
    then show ?thesis using D(1,2,3) docs by (simp add: deletion_requests_def)
  qed
  show ?thesis using a b by blast
qed

text \<open>
  The vault of three files synced into \<open>stored_world\<close>: with every request answered the
  document \<open>gone\<close> is deleted and counted; with a failing scan only the error is counted
  and \<open>gone\<close> stays.
\<close>

theorem reconciliation_deletes_dangling_documents_witness:
  "map path (documents (st (snd (generateEmbeddings example_sys reliable config [''Private'']
     [''Public''] [''Public/n'', ''x'', ''Private/y''] stored_world)))) = [''Public/n'', ''x''] \<and>
   deleteCount (fst (generateEmbeddings example_sys reliable config [''Private'']
     [''Public''] [''Public/n'', ''x'', ''Private/y''] stored_world)) = 1 \<and>
   errorCount (fst (generateEmbeddings example_sys reliable config [''Private'']
     [''Public''] [''Public/n'', ''x'', ''Private/y''] stored_world)) = 0 \<and>
   errorCount (fst (generateEmbeddings example_sys listing_fails config [''Private'']
     [''Public''] [''Public/n'', ''x'', ''Private/y''] stored_world)) = 1 \<and>
   deleteCount (fst (generateEmbeddings example_sys listing_fails config [''Private'']
     [''Public''] [''Public/n'', ''x'', ''Private/y''] stored_world)) = 0 \<and>
   map path (documents (st (snd (generateEmbeddings example_sys listing_fails config [''Private'']
     [''Public''] [''Public/n'', ''x'', ''Private/y''] stored_world)))) = [''Public/n'', ''gone'', ''x'']"
proof -
  let ?V = "[''Public/n'', ''x'', ''Private/y'']"
  let ?F = "live_files example_sys [''Private''] ?V"
  let ?p1 = "sync_files example_sys reliable config [''Public''] ?F (zero_result, stored_world)"
  let ?p2 = "sync_files example_sys listing_fails config [''Public''] ?F (zero_result, stored_world)"
  let ?ok = "generateEmbeddings example_sys reliable config [''Private''] [''Public''] ?V stored_world"
  let ?no = "generateEmbeddings example_sys listing_fails config [''Private''] [''Public''] ?V stored_world"
  have h1: "?p1 = (fst ?p1, snd ?p1)" and h2: "?ok = (fst ?ok, snd ?ok)"
    and h3: "?p2 = (fst ?p2, snd ?p2)" and h4: "?no = (fst ?no, snd ?no)" by simp_all
  have listed: "\<not> reliable (trace (snd ?p1)) SelectAllDocuments" by (simp add: reliable_def)
  have none_failed: "failed_count reliable (trace (snd ?p1) @ [SelectAllDocuments])
      (deletion_requests ?F (documents (st (snd ?p1)))) = 0" by code_simp
  have unlisted: "listing_fails (trace (snd ?p2)) SelectAllDocuments" by (simp add: listing_fails_def)
  have kept: "map path (filter (\<lambda>x. path x \<in> set ?F) (documents (st (snd ?p1)))) = [''Public/n'', ''x'']"
    by code_simp
  have n: "length (deletion_requests ?F (documents (st (snd ?p1)))) = 1" by code_simp
  have z: "deleteCount (fst ?p1) = 0" "errorCount (fst ?p1) = 0"
    "deleteCount (fst ?p2) = 0" "errorCount (fst ?p2) = 0"
    "map path (documents (st (snd ?p2))) = [''Public/n'', ''gone'', ''x'']" by code_simp+
  note A = reconciliation_deletes_dangling_documents[OF h1 h2]
  note B = reconciliation_deletes_dangling_documents[OF h3 h4]
  have "documents (st (snd ?ok)) = filter (\<lambda>x. path x \<in> set ?F) (documents (st (snd ?p1)))"
    using A listed none_failed by blast
  moreover have "deleteCount (fst ?ok) = deleteCount (fst ?p1) + 1"
    using A listed n by metis
  moreover have "errorCount (fst ?ok) = errorCount (fst ?p1) + 0"
    using A listed none_failed by metis
  moreover have "fst ?no = (fst ?p2)\<lparr>errorCount := errorCount (fst ?p2) + 1\<rparr> \<and>
      snd ?no = (snd ?p2)\<lparr>trace := trace (snd ?p2) @ [SelectAllDocuments]\<rparr>"
    using B unlisted by blast
  ultimately show ?thesis using kept z by simp
qed

subsection \<open>Re-indexing\<close>

lemma prefix_snoc_mem:
  "prefix evs (A @ [u]) \<Longrightarrow> x \<in> set evs \<Longrightarrow> x \<notin> set A \<Longrightarrow> evs = A @ [u]"
  by (auto simp: prefix_snoc dest: set_mono_prefix)

lemma reindex_events_snoc:
  "reindex_events sy cfg publicDirs p ex nid =
     ((case ex of Some d \<Rightarrow> [DeleteSections (doc_id d)] | None \<Rightarrow> []) @
      [ParseMarkdown p,
       UpsertDocument p (reindex_meta sy p) (isFileInDirectories sy p publicDirs)] @
      section_events sy (reindex_target ex nid) (reindex_sections sy cfg p)) @
     [UpdateChecksum (reindex_target ex nid) (sha256 sy (cachedRead sy p))]"
  by (simp add: reindex_events_def)

lemma no_checksum_before_last:
  "UpdateChecksum i c \<notin> set ((case ex of Some d \<Rightarrow> [DeleteSections (doc_id d)] | None \<Rightarrow> []) @
      [ParseMarkdown p, UpsertDocument p fm b] @ section_events sy did xs)"
  by (auto simp: section_events_def split: option.splits)

text \<open>
  C1. A file with no row in the store, or with a row of another checksum, is re-indexed
  once the lookup and the read have succeeded. The steps taken are an initial part of:
  the deletion of the existing row's sections (when there is a row), the parsing and
  chunking, the upsert with a null checksum, for each new section its embedding call
  and its insertion, and last the update of the checksum; all of them are taken
  exactly when none fails. So the old sections are deleted before any new one is
  inserted, and the checksum is updated only after every section has been embedded and
  stored. On success the sections of the document are exactly the new ones and the
  stored checksum is the new one; after a failure past the upsert the stored checksum
  is null.
\<close>

theorem reindex_replaces_sections_before_checksum:
  assumes need: "needs_reindex sy p (st w)"
    and sel: "\<not> fails (trace w) (SelectDocument p)"
    and rd: "\<not> fails (trace w @ [SelectDocument p]) (CachedRead p)"
    and wf: "wf_store (st w)"
    and run: "process_file sy fails cfg publicDirs r w p = (out, w')"
  shows "\<exists>evs. trace w' = trace w @ [SelectDocument p, CachedRead p] @ evs \<and>
           prefix evs (reindex_events sy cfg publicDirs p (find_document p (st w)) (next_id (st w))) \<and>
           failed_count fails (trace w @ [SelectDocument p, CachedRead p]) evs =
             (if out = Thrown then 1 else 0) \<and>
           (out \<noteq> Thrown \<longrightarrow>
              evs = reindex_events sy cfg publicDirs p (find_document p (st w)) (next_id (st w)) \<and>
              sections (st w') =
                filter (\<lambda>x. document_id x \<noteq> reindex_target (find_document p (st w)) (next_id (st w)))
                  (sections (st w)) @
                map (section_row sy (reindex_target (find_document p (st w)) (next_id (st w))))
                  (reindex_sections sy cfg p) \<and>
              (\<exists>d. find_document p (st w') = Some d \<and>
                   doc_id d = reindex_target (find_document p (st w)) (next_id (st w)) \<and>
                   checksum d = Some (sha256 sy (cachedRead sy p)))) \<and>
           (out = Thrown \<and>
            \<not> prefix evs ((case find_document p (st w) of Some d \<Rightarrow> [DeleteSections (doc_id d)] | None \<Rightarrow> []) @
                          [ParseMarkdown p,
                           UpsertDocument p (reindex_meta sy p) (isFileInDirectories sy p publicDirs)]) \<longrightarrow>
              (\<exists>d. find_document p (st w') = Some d \<and> checksum d = None)) \<and>
           (\<forall>i c. UpdateChecksum i c \<in> set evs \<longrightarrow>
              evs = reindex_events sy cfg publicDirs p (find_document p (st w)) (next_id (st w)))"
proof -
  let ?w2 = "w\<lparr>trace := trace w @ [SelectDocument p, CachedRead p]\<rparr>"
  let ?full = "reindex_events sy cfg publicDirs p (find_document p (st w)) (next_id (st w))"
  have re: "reindex sy fails cfg r ?w2 p (find_document p (st ?w2)) (cachedRead sy p)
        (sha256 sy (cachedRead sy p)) (isFileInDirectories sy p publicDirs) = (out, w')"
    using process_file_reindex[OF need sel rd run] .
  from reindex_effect(1)[OF re] obtain evs where
    e: "trace w' = trace w @ [SelectDocument p, CachedRead p] @ evs" "prefix evs ?full"
       "failed_count fails (trace w @ [SelectDocument p, CachedRead p]) evs = (if out = Thrown then 1 else 0)"
       "out \<noteq> Thrown \<longrightarrow> evs = ?full"
       "out = Thrown \<and>
            \<not> prefix evs ((case find_document p (st w) of Some d \<Rightarrow> [DeleteSections (doc_id d)] | None \<Rightarrow> []) @
                          [ParseMarkdown p,
                           UpsertDocument p (reindex_meta sy p) (isFileInDirectories sy p publicDirs)]) \<longrightarrow>
              (\<exists>d. find_document p (st w') = Some d \<and> checksum d = None)"
    by auto
  have last: "\<forall>i c. UpdateChecksum i c \<in> set evs \<longrightarrow> evs = ?full"
    using e(2) prefix_snoc_mem[of evs _ _ "UpdateChecksum _ _"] no_checksum_before_last
    unfolding reindex_events_snoc by blast
  show ?thesis
    using e last reindex_effect(4)[OF re] reindex_effect(6)[OF re] wf
    by (intro exI[of _ evs]) auto
qed

lemma stored_process_x:
  "process_file example_sys reliable config [''Public''] zero_result stored_world ''x'' =
     (Done (zero_result\<lparr>successCount := 1, updatedCount := 1\<rparr>),
      \<lparr> st = \<lparr>documents =
               [\<lparr>doc_id = 0, path = ''Public/n'', checksum = Some ''t:a|Hello'',
                 meta = [(''t'', ''a''), (''path'', ''Public/n'')], public = False\<rparr>,
                \<lparr>doc_id = 1, path = ''gone'', checksum = Some ''t:c|Old'',
                 meta = [(''t'', ''c''), (''path'', ''gone'')], public = False\<rparr>,
                \<lparr>doc_id = 2, path = ''x'', checksum = Some ''t:b|Some'',
                 meta = [(''t'', ''b''), (''path'', ''x'')], public = False\<rparr>],
             sections =
               [\<lparr>document_id = 1, content = ''Old'', token_count = 3, embedding = [3]\<rparr>,
                \<lparr>document_id = 2, content = ''Som'', token_count = 14, embedding = [14]\<rparr>,
                \<lparr>document_id = 2, content = ''e'', token_count = 12, embedding = [12]\<rparr>],
             next_id = 3\<rparr>,
        trace = [SelectDocument ''x'', CachedRead ''x'', DeleteSections 2, ParseMarkdown ''x'',
                 UpsertDocument ''x'' [(''t'', ''b''), (''path'', ''x'')] False,
                 CreateEmbedding ''t=b;path=x;Som'', InsertSection 2 ''Som'' 14 [14],
                 CreateEmbedding ''t=b;path=x;e'', InsertSection 2 ''e'' 12 [12],
                 UpdateChecksum 2 ''t:b|Some''] \<rparr>)"
  by code_simp

text \<open>
  The file \<open>x\<close> of \<open>stored_world\<close>, whose row has another checksum: its two old sections
  are replaced by the two new ones and the checksum is set.
\<close>

theorem reindex_replaces_sections_before_checksum_witness:
  "map content (sections (st (snd (process_file example_sys reliable config [''Public'']
      zero_result stored_world ''x'')))) = [''Old'', ''Som'', ''e''] \<and>
   map token_count (sections (st (snd (process_file example_sys reliable config [''Public'']
      zero_result stored_world ''x'')))) = [3, 14, 12] \<and>
   drop 2 (trace (snd (process_file example_sys reliable config [''Public''] zero_result stored_world ''x''))) =
     reindex_events example_sys config [''Public''] ''x''
       (find_document ''x'' (st stored_world)) (next_id (st stored_world))"
proof -
  let ?run = "process_file example_sys reliable config [''Public''] zero_result stored_world ''x''"
  have h1: "needs_reindex example_sys ''x'' (st stored_world)" by code_simp
  have h2: "\<not> reliable (trace stored_world) (SelectDocument ''x'')" by code_simp
  have h3: "\<not> reliable (trace stored_world @ [SelectDocument ''x'']) (CachedRead ''x'')" by code_simp
  have h4: "wf_store (st stored_world)" by code_simp
  have h5: "?run = (fst ?run, snd ?run)" by simp
  have ok: "fst ?run \<noteq> Thrown" by (simp add: stored_process_x)
  from reindex_replaces_sections_before_checksum[OF h1 h2 h3 h4 h5] ok
  obtain evs where
    e: "trace (snd ?run) = trace stored_world @ [SelectDocument ''x'', CachedRead ''x''] @ evs"
       "evs = reindex_events example_sys config [''Public''] ''x''
               (find_document ''x'' (st stored_world)) (next_id (st stored_world))"
       "sections (st (snd ?run)) =
          filter (\<lambda>x. document_id x \<noteq> reindex_target (find_document ''x'' (st stored_world)) (next_id (st stored_world)))
            (sections (st stored_world)) @
          map (section_row example_sys (reindex_target (find_document ''x'' (st stored_world)) (next_id (st stored_world))))
            (reindex_sections example_sys config ''x'')"
    by blast
  have t: "trace stored_world = []" by code_simp
  have s: "map content (filter (\<lambda>x. document_id x \<noteq> reindex_target (find_document ''x'' (st stored_world)) (next_id (st stored_world)))
            (sections (st stored_world)) @
          map (section_row example_sys (reindex_target (find_document ''x'' (st stored_world)) (next_id (st stored_world))))
            (reindex_sections example_sys config ''x'')) = [''Old'', ''Som'', ''e'']"
    by code_simp
  have s2: "map token_count (filter (\<lambda>x. document_id x \<noteq> reindex_target (find_document ''x'' (st stored_world)) (next_id (st stored_world)))
            (sections (st stored_world)) @
          map (section_row example_sys (reindex_target (find_document ''x'' (st stored_world)) (next_id (st stored_world))))
            (reindex_sections example_sys config ''x'')) = [3, 14, 12]"
    by code_simp
  show ?thesis using e t s s2 by simp
qed

subsection \<open>Unchanged documents\<close>

lemma update_by_id_is_update_of_row:
  assumes "distinct (map doc_id ds)" "d \<in> set ds"
  shows "map (\<lambda>x. if doc_id x = doc_id d then g x else x) ds = map (\<lambda>x. if x = d then g x else x) ds"
  using assms distinct_id_eq[OF assms(1)] by (intro map_cong) auto

text \<open>
  C2. Take a file whose row in the store carries the checksum of the file's text, the
  lookup and the read having succeeded. When the row's public flag is the computed
  visibility, nothing is written: the store is as before, only the two reads were sent,
  and \<open>successCount\<close> grows by one. Otherwise the one request sent after the reads is
  the update of the public flag of that row; no section and no identity changes, and
  when the request succeeds the documents are as before but for the flag of that one
  row, and \<open>successCount\<close> and \<open>updatedCount\<close> both grow by one.
\<close>

theorem unchanged_document_skipped_or_flag_updated:
  assumes found: "find_document p (st w) = Some d"
    and same: "checksum d = Some (sha256 sy (cachedRead sy p))"
    and sel: "\<not> fails (trace w) (SelectDocument p)"
    and rd: "\<not> fails (trace w @ [SelectDocument p]) (CachedRead p)"
  shows "(public d = isFileInDirectories sy p publicDirs \<longrightarrow>
            process_file sy fails cfg publicDirs r w p =
              (Done (r\<lparr>successCount := successCount r + 1\<rparr>),
               w\<lparr>trace := trace w @ [SelectDocument p, CachedRead p]\<rparr>)) \<and>
         (public d \<noteq> isFileInDirectories sy p publicDirs \<longrightarrow>
            trace (snd (process_file sy fails cfg publicDirs r w p)) =
              trace w @ [SelectDocument p, CachedRead p,
                         UpdatePublic (doc_id d) (isFileInDirectories sy p publicDirs)] \<and>
            sections (st (snd (process_file sy fails cfg publicDirs r w p))) = sections (st w) \<and>
            next_id (st (snd (process_file sy fails cfg publicDirs r w p))) = next_id (st w) \<and>
            (\<not> fails (trace w @ [SelectDocument p, CachedRead p])
                 (UpdatePublic (doc_id d) (isFileInDirectories sy p publicDirs)) \<longrightarrow>
               fst (process_file sy fails cfg publicDirs r w p) =
                 Done (r\<lparr>successCount := successCount r + 1, updatedCount := updatedCount r + 1\<rparr>) \<and>
               (wf_store (st w) \<longrightarrow>
                  documents (st (snd (process_file sy fails cfg publicDirs r w p))) =
                    map (\<lambda>x. if x = d then x\<lparr>public := isFileInDirectories sy p publicDirs\<rparr> else x)
                      (documents (st w)))))"
proof -
  have nr: "\<not> needs_reindex sy p (st w)"
    using found same by (simp add: needs_reindex_def)
  have sy: "synced sy publicDirs (st w) p \<longleftrightarrow> public d = isFileInDirectories sy p publicDirs"
    using found same by (simp add: synced_def)
  have dm: "d \<in> set (documents (st w))" using found by (auto dest: find_document_mem)
  have row: "wf_store (st w) \<Longrightarrow>
      map (\<lambda>x. if doc_id x = doc_id d then x\<lparr>public := b\<rparr> else x) (documents (st w)) =
      map (\<lambda>x. if x = d then x\<lparr>public := b\<rparr> else x) (documents (st w))" for b
    using update_by_id_is_update_of_row[of "documents (st w)" d "\<lambda>x. x\<lparr>public := b\<rparr>"] dm
    by (simp add: wf_store_def)
  show ?thesis
    using nr sy sel rd found row
    by (auto simp: process_file_unfold on_store_def update_public_def)
qed

text \<open>
  The file \<open>Public/n\<close> of \<open>stored_world\<close>, whose row is up to date and not public: with no
  public directory it is passed over, with the public directory \<open>Public\<close> its flag is set.
\<close>

theorem unchanged_document_skipped_or_flag_updated_witness:
  "process_file example_sys reliable config [] zero_result stored_world ''Public/n'' =
     (Done (zero_result\<lparr>successCount := successCount zero_result + 1\<rparr>),
      stored_world\<lparr>trace := trace stored_world @ [SelectDocument ''Public/n'', CachedRead ''Public/n'']\<rparr>) \<and>
   fst (process_file example_sys reliable config [''Public''] zero_result stored_world ''Public/n'') =
     Done (zero_result\<lparr>successCount := successCount zero_result + 1,
                       updatedCount := updatedCount zero_result + 1\<rparr>) \<and>
   map public (documents (st (snd (process_file example_sys reliable config [''Public'']
     zero_result stored_world ''Public/n'')))) = [True, False, False] \<and>
   sections (st (snd (process_file example_sys reliable config [''Public'']
     zero_result stored_world ''Public/n''))) = sections (st stored_world)"
proof -
  let ?d = "documents (st stored_world) ! 0"
  have h1: "find_document ''Public/n'' (st stored_world) = Some ?d" by code_simp
  have h2: "checksum ?d = Some (sha256 example_sys (cachedRead example_sys ''Public/n''))" by code_simp
  have h3: "\<not> reliable (trace stored_world) (SelectDocument ''Public/n'')" by code_simp
  have h4: "\<not> reliable (trace stored_world @ [SelectDocument ''Public/n'']) (CachedRead ''Public/n'')"
    by code_simp
  have same: "public ?d = isFileInDirectories example_sys ''Public/n'' []" by code_simp
  have other: "public ?d \<noteq> isFileInDirectories example_sys ''Public/n'' [''Public'']" by code_simp
  have upd: "\<not> reliable (trace stored_world @ [SelectDocument ''Public/n'', CachedRead ''Public/n''])
      (UpdatePublic (doc_id ?d) (isFileInDirectories example_sys ''Public/n'' [''Public'']))"
    by code_simp
  have wf: "wf_store (st stored_world)" by code_simp
  have flags: "map public (map (\<lambda>x. if x = ?d then x\<lparr>public := isFileInDirectories example_sys ''Public/n'' [''Public'']\<rparr> else x)
      (documents (st stored_world))) = [True, False, False]"
    by code_simp
  note A = unchanged_document_skipped_or_flag_updated[OF h1 h2 h3 h4,
      where publicDirs = "[]" and cfg = config and r = zero_result]
  note B = unchanged_document_skipped_or_flag_updated[OF h1 h2 h3 h4,
      where publicDirs = "[''Public'']" and cfg = config and r = zero_result]
  have a: "process_file example_sys reliable config [] zero_result stored_world ''Public/n'' =
     (Done (zero_result\<lparr>successCount := successCount zero_result + 1\<rparr>),
      stored_world\<lparr>trace := trace stored_world @ [SelectDocument ''Public/n'', CachedRead ''Public/n'']\<rparr>)"
    using A same by blast
  have b: "fst (process_file example_sys reliable config [''Public''] zero_result stored_world ''Public/n'') =
     Done (zero_result\<lparr>successCount := successCount zero_result + 1,
                       updatedCount := updatedCount zero_result + 1\<rparr>)"
    using B other upd by blast
  have c: "documents (st (snd (process_file example_sys reliable config [''Public'']
      zero_result stored_world ''Public/n''))) =
      map (\<lambda>x. if x = ?d then x\<lparr>public := isFileInDirectories example_sys ''Public/n'' [''Public'']\<rparr> else x)
      (documents (st stored_world))"
    using B other upd wf by blast
  have d: "sections (st (snd (process_file example_sys reliable config [''Public'']
     zero_result stored_world ''Public/n''))) = sections (st stored_world)"
    using B other by blast
  show ?thesis using a b c d flags by simp
qed

subsection \<open>Failures\<close>

text \<open>
  The counters do not steer the processing: what is done to the world for a file, and by
  how much each counter grows, is the same whatever the counters hold.
\<close>

lemma index_document_uniform:
  "\<exists>w1. (\<forall>r. index_document sy fails cfg r w p md cs b = (Thrown, w1)) \<or>
        (\<forall>r. index_document sy fails cfg r w p md cs b =
              (Done (r\<lparr>successCount := successCount r + 1, updatedCount := updatedCount r + 1\<rparr>), w1))"
proof -
  let ?fm = "AList.update ''path'' p (snd (parseMarkdown sy md))"
  let ?secs = "smartChunkParagraphs sy (fst (parseMarkdown sy md)) (minParagraphSize cfg) (maxParagraphSize cfg)"
  obtain ok1 w1 where s1: "request fails (ParseMarkdown p) w = (ok1, w1)"
    by (cases "request fails (ParseMarkdown p) w")
  obtain ok2 w2 where s2: "request fails (UpsertDocument p ?fm b) w1 = (ok2, w2)"
    by (cases "request fails (UpsertDocument p ?fm b) w1")
  obtain doc s3 where s3: "upsert_document p ?fm b (st w2) = (doc, s3)"
    by (cases "upsert_document p ?fm b (st w2)")
  obtain ok4 w4 where s4: "embed_sections sy fails (doc_id doc) (chunk_inputs sy cfg ?fm p ?secs)
      (w2\<lparr>st := s3\<rparr>) = (ok4, w4)"
    by (cases "embed_sections sy fails (doc_id doc) (chunk_inputs sy cfg ?fm p ?secs) (w2\<lparr>st := s3\<rparr>)")
  obtain ok5 w5 where s5: "request fails (UpdateChecksum (doc_id doc) cs) w4 = (ok5, w5)"
    by (cases "request fails (UpdateChecksum (doc_id doc) cs) w4")
  have eq: "index_document sy fails cfg r w p md cs b =
      (if \<not> ok1 then (Thrown, w1) else if \<not> ok2 then (Thrown, w2)
       else if \<not> ok4 then (Thrown, w4) else if \<not> ok5 then (Thrown, w5)
       else (Done (r\<lparr>successCount := successCount r + 1, updatedCount := updatedCount r + 1\<rparr>),
             on_store (update_checksum (doc_id doc) cs) w5))" for r
    using s1 s2 s3 s4 s5
    by (cases ok1; cases ok2; cases ok4; cases ok5) (simp_all add: index_document_def Let_def)
  show ?thesis
    by (cases ok1; cases ok2; cases ok4; cases ok5) (simp_all add: eq)
qed

lemma reindex_uniform:
  "\<exists>w1. (\<forall>r. reindex sy fails cfg r w p ex md cs b = (Thrown, w1)) \<or>
        (\<forall>r. reindex sy fails cfg r w p ex md cs b =
              (Done (r\<lparr>successCount := successCount r + 1, updatedCount := updatedCount r + 1\<rparr>), w1))"
proof (cases "delete_old_sections fails ex w")
  case (Pair ok w0)
  show ?thesis
  proof (cases ok)
    case True
    then show ?thesis using Pair index_document_uniform[of sy fails cfg w0 p md cs b]
      by (simp add: reindex_def)
  next
    case False
    then show ?thesis using Pair by (simp add: reindex_def)
  qed
qed

lemma process_file_uniform:
  "\<exists>w1. (\<forall>r. process_file sy fails cfg publicDirs r w p = (Thrown, w1)) \<or>
        (\<exists>u \<le> 1. \<forall>r. process_file sy fails cfg publicDirs r w p =
              (Done (r\<lparr>successCount := successCount r + 1, updatedCount := updatedCount r + u\<rparr>), w1))"
proof -
  let ?w2 = "w\<lparr>trace := trace w @ [SelectDocument p, CachedRead p]\<rparr>"
  consider (a) "fails (trace w) (SelectDocument p)"
    | (b) "\<not> fails (trace w) (SelectDocument p)" "fails (trace w @ [SelectDocument p]) (CachedRead p)"
    | (c) "\<not> fails (trace w) (SelectDocument p)" "\<not> fails (trace w @ [SelectDocument p]) (CachedRead p)"
          "needs_reindex sy p (st w)"
    | (d) "\<not> fails (trace w) (SelectDocument p)" "\<not> fails (trace w @ [SelectDocument p]) (CachedRead p)"
          "\<not> needs_reindex sy p (st w)" "synced sy publicDirs (st w) p"
    | (e) "\<not> fails (trace w) (SelectDocument p)" "\<not> fails (trace w @ [SelectDocument p]) (CachedRead p)"
          "\<not> needs_reindex sy p (st w)" "\<not> synced sy publicDirs (st w) p"
    by blast
  then show ?thesis
  proof cases
    case a
    then show ?thesis by (simp add: process_file_unfold)
  next
    case b
    then show ?thesis by (simp add: process_file_unfold)
  next
    case c
    from reindex_uniform[of sy fails cfg ?w2 p "find_document p (st w)" "cachedRead sy p"
        "sha256 sy (cachedRead sy p)" "isFileInDirectories sy p publicDirs"]
    obtain w1 where
      "(\<forall>r. reindex sy fails cfg r ?w2 p (find_document p (st w)) (cachedRead sy p)
             (sha256 sy (cachedRead sy p)) (isFileInDirectories sy p publicDirs) = (Thrown, w1)) \<or>
       (\<forall>r. reindex sy fails cfg r ?w2 p (find_document p (st w)) (cachedRead sy p)
             (sha256 sy (cachedRead sy p)) (isFileInDirectories sy p publicDirs) =
             (Done (r\<lparr>successCount := successCount r + 1, updatedCount := updatedCount r + 1\<rparr>), w1))"
      by blast
    then show ?thesis using c
      by (intro exI[of _ w1]) (auto simp: process_file_unfold intro!: exI[of _ 1])
  next
    case d
    then show ?thesis
      by (intro exI[of _ ?w2]) (auto simp: process_file_unfold intro!: exI[of _ 0])
  next
    case e
    then show ?thesis
      by (cases "fails (trace w @ [SelectDocument p, CachedRead p])
                  (UpdatePublic (doc_id (the (find_document p (st w)))) (isFileInDirectories sy p publicDirs))")
         (auto simp: process_file_unfold intro!: exI[of _ 1])
  qed
qed

lemma sync_file_uniform:
  "\<exists>w1 ds du de. \<forall>r. sync_file sy fails cfg publicDirs (r, w) p =
      (r\<lparr>successCount := successCount r + ds, updatedCount := updatedCount r + du,
         errorCount := errorCount r + de\<rparr>, w1)"
proof -
  from process_file_uniform[of sy fails cfg publicDirs w p] obtain w1 where
    w1: "(\<forall>r. process_file sy fails cfg publicDirs r w p = (Thrown, w1)) \<or>
        (\<exists>u \<le> 1. \<forall>r. process_file sy fails cfg publicDirs r w p =
              (Done (r\<lparr>successCount := successCount r + 1, updatedCount := updatedCount r + u\<rparr>), w1))"
    by blast
  then show ?thesis
  proof
    assume "\<forall>r. process_file sy fails cfg publicDirs r w p = (Thrown, w1)"
    then show ?thesis
      by (intro exI[of _ w1] exI[of _ 0] exI[of _ 1]) (simp add: sync_file_def)
  next
    assume "\<exists>u \<le> 1. \<forall>r. process_file sy fails cfg publicDirs r w p =
              (Done (r\<lparr>successCount := successCount r + 1, updatedCount := updatedCount r + u\<rparr>), w1)"
    then obtain u where "\<forall>r. process_file sy fails cfg publicDirs r w p =
              (Done (r\<lparr>successCount := successCount r + 1, updatedCount := updatedCount r + u\<rparr>), w1)"
      by blast
    then show ?thesis
      by (intro exI[of _ w1] exI[of _ 1] exI[of _ u] exI[of _ 0]) (simp add: sync_file_def)
  qed
qed

lemma sync_files_uniform:
  "\<exists>w1 ds du de. \<forall>r. sync_files sy fails cfg publicDirs ps (r, w) =
      (r\<lparr>successCount := successCount r + ds, updatedCount := updatedCount r + du,
         errorCount := errorCount r + de\<rparr>, w1)"
proof (induction ps arbitrary: w)
  case Nil
  show ?case by (intro exI[of _ w] exI[of _ 0]) simp
next
  case (Cons p ps)
  from sync_file_uniform[of sy fails cfg publicDirs w p] obtain wa sa ua ea where
    a: "\<forall>r. sync_file sy fails cfg publicDirs (r, w) p =
      (r\<lparr>successCount := successCount r + sa, updatedCount := updatedCount r + ua,
         errorCount := errorCount r + ea\<rparr>, wa)"
    by blast
  from Cons.IH[of wa] obtain wb sb ub eb where
    b: "\<forall>r. sync_files sy fails cfg publicDirs ps (r, wa) =
      (r\<lparr>successCount := successCount r + sb, updatedCount := updatedCount r + ub,
         errorCount := errorCount r + eb\<rparr>, wb)"
    by blast
  show ?case
    by (intro exI[of _ wb] exI[of _ "sa + sb"] exI[of _ "ua + ub"] exI[of _ "ea + eb"])
       (simp add: a b add.assoc)
qed

lemma sync_files_append:
  "sync_files sy fails cfg publicDirs (xs @ ys) rw =
     sync_files sy fails cfg publicDirs ys (sync_files sy fails cfg publicDirs xs rw)"
  by (induction xs arbitrary: rw) auto

text \<open>
  C3. Processing one file takes its steps until one fails; \<open>errorCount\<close> grows by the
  number of failed steps, which is zero or one. After a failure no other counter has
  changed, and the row of the file is as it was or has a null checksum: the checksum
  was not set, and a file that needed a re-index still needs it at the next sync. The
  loop then goes on with the files that follow exactly as it would with fresh counters:
  the world it leaves and the growth of every counter are those of the same loop started
  from zero. Each later file, at its turn, is put through the whole per-document
  procedure on the world reached: when none of its steps fails its row ends with the
  file's checksum and computed visibility and it is counted a success, otherwise it is
  counted one error. So each file gets its lookup and ends in exactly one of
  \<open>successCount\<close> and \<open>errorCount\<close>, and when no later step fails every later file ends in
  step with the store.
\<close>

theorem failed_document_counted_once_and_sync_continues:
  assumes one: "sync_file sy fails cfg publicDirs (r, w) p = (r', w')"
    and rest: "sync_files sy fails cfg publicDirs ps (r', w') = (r'', w'')"
  shows "(\<exists>evs. trace w' = trace w @ SelectDocument p # evs \<and>
            failed_count fails (trace w) (SelectDocument p # evs) \<le> 1 \<and>
            errorCount r' = errorCount r + failed_count fails (trace w) (SelectDocument p # evs)) \<and>
         (errorCount r' \<noteq> errorCount r \<longrightarrow>
            errorCount r' = errorCount r + 1 \<and>
            successCount r' = successCount r \<and> updatedCount r' = updatedCount r \<and>
            deleteCount r' = deleteCount r \<and>
            (find_document p (st w') = find_document p (st w) \<or>
             (\<exists>d. find_document p (st w') = Some d \<and> checksum d = None)) \<and>
            (needs_reindex sy p (st w) \<longrightarrow> needs_reindex sy p (st w'))) \<and>
         sync_files sy fails cfg publicDirs (p # ps) (r, w) = (r'', w'') \<and>
         (\<exists>evs. trace w'' = trace w' @ evs \<and> (\<forall>q \<in> set ps. SelectDocument q \<in> set evs)) \<and>
         successCount r'' + errorCount r'' = successCount r + errorCount r + length (p # ps) \<and>
         w'' = snd (sync_files sy fails cfg publicDirs ps (zero_result, w')) \<and>
         successCount r'' =
           successCount r' + successCount (fst (sync_files sy fails cfg publicDirs ps (zero_result, w'))) \<and>
         updatedCount r'' =
           updatedCount r' + updatedCount (fst (sync_files sy fails cfg publicDirs ps (zero_result, w'))) \<and>
         errorCount r'' =
           errorCount r' + errorCount (fst (sync_files sy fails cfg publicDirs ps (zero_result, w'))) \<and>
         (\<forall>ps1 q ps2. ps = ps1 @ q # ps2 \<longrightarrow>
            snd (sync_file sy fails cfg publicDirs (sync_files sy fails cfg publicDirs ps1 (r', w')) q) =
              snd (process_file sy fails cfg publicDirs zero_result
                     (snd (sync_files sy fails cfg publicDirs ps1 (r', w'))) q) \<and>
            (fst (process_file sy fails cfg publicDirs zero_result
                    (snd (sync_files sy fails cfg publicDirs ps1 (r', w'))) q) \<noteq> Thrown \<longrightarrow>
               synced sy publicDirs
                 (st (snd (sync_file sy fails cfg publicDirs
                             (sync_files sy fails cfg publicDirs ps1 (r', w')) q))) q \<and>
               successCount (fst (sync_file sy fails cfg publicDirs
                                    (sync_files sy fails cfg publicDirs ps1 (r', w')) q)) =
                 successCount (fst (sync_files sy fails cfg publicDirs ps1 (r', w'))) + 1 \<and>
               errorCount (fst (sync_file sy fails cfg publicDirs
                                  (sync_files sy fails cfg publicDirs ps1 (r', w')) q)) =
                 errorCount (fst (sync_files sy fails cfg publicDirs ps1 (r', w')))) \<and>
            (fst (process_file sy fails cfg publicDirs zero_result
                    (snd (sync_files sy fails cfg publicDirs ps1 (r', w'))) q) = Thrown \<longrightarrow>
               errorCount (fst (sync_file sy fails cfg publicDirs
                                  (sync_files sy fails cfg publicDirs ps1 (r', w')) q)) =
                 errorCount (fst (sync_files sy fails cfg publicDirs ps1 (r', w'))) + 1 \<and>
               successCount (fst (sync_file sy fails cfg publicDirs
                                    (sync_files sy fails cfg publicDirs ps1 (r', w')) q)) =
                 successCount (fst (sync_files sy fails cfg publicDirs ps1 (r', w'))) \<and>
               updatedCount (fst (sync_file sy fails cfg publicDirs
                                    (sync_files sy fails cfg publicDirs ps1 (r', w')) q)) =
                 updatedCount (fst (sync_files sy fails cfg publicDirs ps1 (r', w')))) \<and>
            sync_files sy fails cfg publicDirs ps2
              (sync_file sy fails cfg publicDirs (sync_files sy fails cfg publicDirs ps1 (r', w')) q) =
              (r'', w'')) \<and>
         (wf_store (st w) \<and> errorCount r'' = errorCount r' \<longrightarrow>
            (\<forall>q \<in> set ps. synced sy publicDirs (st w'') q) \<and>
            successCount r'' = successCount r' + length ps)"
proof -
  note S = sync_file_effect[OF one]
  note R = sync_files_effect[OF rest]
  have a: "\<exists>evs. trace w' = trace w @ SelectDocument p # evs \<and>
            failed_count fails (trace w) (SelectDocument p # evs) \<le> 1 \<and>
            errorCount r' = errorCount r + failed_count fails (trace w) (SelectDocument p # evs)"
    using S(1) .
  have b: "errorCount r' \<noteq> errorCount r \<longrightarrow>
            errorCount r' = errorCount r + 1 \<and>
            successCount r' = successCount r \<and> updatedCount r' = updatedCount r \<and>
            deleteCount r' = deleteCount r \<and>
            (find_document p (st w') = find_document p (st w) \<or>
             (\<exists>d. find_document p (st w') = Some d \<and> checksum d = None)) \<and>
            (needs_reindex sy p (st w) \<longrightarrow> needs_reindex sy p (st w'))"
    using S(3,5) by (auto simp: needs_reindex_def)
  have c: "sync_files sy fails cfg publicDirs (p # ps) (r, w) = (r'', w'')"
    using one rest by simp
  have d: "\<exists>evs. trace w'' = trace w' @ evs \<and> (\<forall>q \<in> set ps. SelectDocument q \<in> set evs)"
    using R(5) by auto
  have e: "successCount r'' + errorCount r'' = successCount r + errorCount r + length (p # ps)"
    using sync_files_effect(2)[OF c] .
  have f: "w'' = snd (sync_files sy fails cfg publicDirs ps (zero_result, w'))"
    and f2: "successCount r'' =
        successCount r' + successCount (fst (sync_files sy fails cfg publicDirs ps (zero_result, w')))"
    and f3: "updatedCount r'' =
        updatedCount r' + updatedCount (fst (sync_files sy fails cfg publicDirs ps (zero_result, w')))"
    and f4: "errorCount r'' =
        errorCount r' + errorCount (fst (sync_files sy fails cfg publicDirs ps (zero_result, w')))"
  proof -
    from sync_files_uniform[of sy fails cfg publicDirs ps w'] obtain w1 ds du de where
      u: "\<forall>x. sync_files sy fails cfg publicDirs ps (x, w') =
        (x\<lparr>successCount := successCount x + ds, updatedCount := updatedCount x + du,
           errorCount := errorCount x + de\<rparr>, w1)"
      by blast
    have u1: "sync_files sy fails cfg publicDirs ps (r', w') =
        (r'\<lparr>successCount := successCount r' + ds, updatedCount := updatedCount r' + du,
           errorCount := errorCount r' + de\<rparr>, w1)"
      using u by (rule spec)
    have u0: "sync_files sy fails cfg publicDirs ps (zero_result, w') =
        (zero_result\<lparr>successCount := successCount zero_result + ds,
           updatedCount := updatedCount zero_result + du,
           errorCount := errorCount zero_result + de\<rparr>, w1)"
      using u by (rule spec)
    have eq: "r'' = r'\<lparr>successCount := successCount r' + ds, updatedCount := updatedCount r' + du,
           errorCount := errorCount r' + de\<rparr>" "w'' = w1"
      using u1 rest by simp_all
    show "w'' = snd (sync_files sy fails cfg publicDirs ps (zero_result, w'))"
      unfolding u0 eq by simp
    show "successCount r'' =
        successCount r' + successCount (fst (sync_files sy fails cfg publicDirs ps (zero_result, w')))"
      unfolding u0 eq by (simp add: zero_result_def)
    show "updatedCount r'' =
        updatedCount r' + updatedCount (fst (sync_files sy fails cfg publicDirs ps (zero_result, w')))"
      unfolding u0 eq by (simp add: zero_result_def)
    show "errorCount r'' =
        errorCount r' + errorCount (fst (sync_files sy fails cfg publicDirs ps (zero_result, w')))"
      unfolding u0 eq by (simp add: zero_result_def)
  qed
  have g: "\<forall>ps1 q ps2. ps = ps1 @ q # ps2 \<longrightarrow>
            snd (sync_file sy fails cfg publicDirs (sync_files sy fails cfg publicDirs ps1 (r', w')) q) =
              snd (process_file sy fails cfg publicDirs zero_result
                     (snd (sync_files sy fails cfg publicDirs ps1 (r', w'))) q) \<and>
            (fst (process_file sy fails cfg publicDirs zero_result
                    (snd (sync_files sy fails cfg publicDirs ps1 (r', w'))) q) \<noteq> Thrown \<longrightarrow>
               synced sy publicDirs
                 (st (snd (sync_file sy fails cfg publicDirs
                             (sync_files sy fails cfg publicDirs ps1 (r', w')) q))) q \<and>
               successCount (fst (sync_file sy fails cfg publicDirs
                                    (sync_files sy fails cfg publicDirs ps1 (r', w')) q)) =
                 successCount (fst (sync_files sy fails cfg publicDirs ps1 (r', w'))) + 1 \<and>
               errorCount (fst (sync_file sy fails cfg publicDirs
                                  (sync_files sy fails cfg publicDirs ps1 (r', w')) q)) =
                 errorCount (fst (sync_files sy fails cfg publicDirs ps1 (r', w')))) \<and>
            (fst (process_file sy fails cfg publicDirs zero_result
                    (snd (sync_files sy fails cfg publicDirs ps1 (r', w'))) q) = Thrown \<longrightarrow>
               errorCount (fst (sync_file sy fails cfg publicDirs
                                  (sync_files sy fails cfg publicDirs ps1 (r', w')) q)) =
                 errorCount (fst (sync_files sy fails cfg publicDirs ps1 (r', w'))) + 1 \<and>
               successCount (fst (sync_file sy fails cfg publicDirs
                                    (sync_files sy fails cfg publicDirs ps1 (r', w')) q)) =
                 successCount (fst (sync_files sy fails cfg publicDirs ps1 (r', w'))) \<and>
               updatedCount (fst (sync_file sy fails cfg publicDirs
                                    (sync_files sy fails cfg publicDirs ps1 (r', w')) q)) =
                 updatedCount (fst (sync_files sy fails cfg publicDirs ps1 (r', w')))) \<and>
            sync_files sy fails cfg publicDirs ps2
              (sync_file sy fails cfg publicDirs (sync_files sy fails cfg publicDirs ps1 (r', w')) q) =
              (r'', w'')"
  proof (intro allI impI, goal_cases)
    case (1 ps1 q ps2)
    note split = 1
    obtain ra wa where pre: "sync_files sy fails cfg publicDirs ps1 (r', w') = (ra, wa)"
      by (cases "sync_files sy fails cfg publicDirs ps1 (r', w')")
    have last: "sync_files sy fails cfg publicDirs ps2 (sync_file sy fails cfg publicDirs (ra, wa) q) =
        (r'', w'')"
      using rest pre unfolding split by (simp add: sync_files_append)
    from process_file_uniform[of sy fails cfg publicDirs wa q] obtain w1 where
      u: "(\<forall>x. process_file sy fails cfg publicDirs x wa q = (Thrown, w1)) \<or>
        (\<exists>u \<le> 1. \<forall>x. process_file sy fails cfg publicDirs x wa q =
              (Done (x\<lparr>successCount := successCount x + 1, updatedCount := updatedCount x + u\<rparr>), w1))"
      by blast
    then show ?case
    proof
      assume t: "\<forall>x. process_file sy fails cfg publicDirs x wa q = (Thrown, w1)"
      then show ?thesis using pre last by (simp add: sync_file_def)
    next
      assume "\<exists>u \<le> 1. \<forall>x. process_file sy fails cfg publicDirs x wa q =
              (Done (x\<lparr>successCount := successCount x + 1, updatedCount := updatedCount x + u\<rparr>), w1)"
      then obtain u where t: "\<forall>x. process_file sy fails cfg publicDirs x wa q =
              (Done (x\<lparr>successCount := successCount x + 1, updatedCount := updatedCount x + u\<rparr>), w1)"
        by blast
      have "process_file sy fails cfg publicDirs ra wa q =
          (Done (ra\<lparr>successCount := successCount ra + 1, updatedCount := updatedCount ra + u\<rparr>), w1)"
        using t by simp
      from process_file_effect(3)[OF this] have "synced sy publicDirs (st w1) q" by simp
      then show ?thesis using t pre last by (simp add: sync_file_def)
    qed
  qed
    have h: "wf_store (st w) \<and> errorCount r'' = errorCount r' \<longrightarrow>
            (\<forall>q \<in> set ps. synced sy publicDirs (st w'') q) \<and>
            successCount r'' = successCount r' + length ps"
  proof (intro impI, goal_cases)
    case 1
    then have wf: "wf_store (st w)" and same: "errorCount r'' = errorCount r'" by simp_all
    have wf': "wf_store (st w')" using S(2) wf by simp
    show ?case using sync_files_clean[OF rest same wf'] R(2) same by simp
  qed
  show ?thesis by (intro conjI a b c d e f f2 f3 f4 g h)
qed

lemma stored_failing_x:
  "errorCount (fst (sync_file example_sys insertions_fail config [''Public'']
     (zero_result, stored_world) ''x'')) = 1"
  by code_simp

lemma stored_after_failing_x:
  "fst (process_file example_sys insertions_fail config [''Public''] zero_result
     (snd (sync_file example_sys insertions_fail config [''Public''] (zero_result, stored_world) ''x''))
     ''Public/n'') \<noteq> Thrown \<and>
   drop 7 (trace (snd (process_file example_sys insertions_fail config [''Public''] zero_result
     (snd (sync_file example_sys insertions_fail config [''Public''] (zero_result, stored_world) ''x''))
     ''Public/n''))) =
     [SelectDocument ''Public/n'', CachedRead ''Public/n'', UpdatePublic 0 True]"
  by code_simp

text \<open>
  On \<open>stored_world\<close> with every insertion of a section failing: the file \<open>x\<close> fails at
  its first section and is left with a null checksum; the file \<open>Public/n\<close> after it is
  looked up, read and given its public flag, and ends in step with the store.
\<close>

theorem failed_document_counted_once_and_sync_continues_witness:
  "errorCount (fst (sync_file example_sys insertions_fail config [''Public'']
      (zero_result, stored_world) ''x'')) = errorCount zero_result + 1 \<and>
   successCount (fst (sync_file example_sys insertions_fail config [''Public'']
      (zero_result, stored_world) ''x'')) = successCount zero_result \<and>
   updatedCount (fst (sync_file example_sys insertions_fail config [''Public'']
      (zero_result, stored_world) ''x'')) = updatedCount zero_result \<and>
   needs_reindex example_sys ''x'' (st (snd (sync_file example_sys insertions_fail config [''Public'']
      (zero_result, stored_world) ''x''))) \<and>
   SelectDocument ''Public/n'' \<in> set (trace (snd (sync_files example_sys insertions_fail config
      [''Public''] [''x'', ''Public/n''] (zero_result, stored_world)))) \<and>
   successCount (fst (sync_files example_sys insertions_fail config
      [''Public''] [''x'', ''Public/n''] (zero_result, stored_world))) +
   errorCount (fst (sync_files example_sys insertions_fail config
      [''Public''] [''x'', ''Public/n''] (zero_result, stored_world))) = 2 \<and>
   synced example_sys [''Public''] (st (snd (sync_files example_sys insertions_fail config
      [''Public''] [''x'', ''Public/n''] (zero_result, stored_world)))) ''Public/n'' \<and>
   drop 7 (trace (snd (sync_files example_sys insertions_fail config
      [''Public''] [''x'', ''Public/n''] (zero_result, stored_world)))) =
     [SelectDocument ''Public/n'', CachedRead ''Public/n'', UpdatePublic 0 True] \<and>
   successCount (fst (sync_files example_sys insertions_fail config
      [''Public''] [''x'', ''Public/n''] (zero_result, stored_world))) = 1"
proof -
  let ?A = "sync_file example_sys insertions_fail config [''Public''] (zero_result, stored_world) ''x''"
  let ?B = "sync_files example_sys insertions_fail config [''Public''] [''Public/n''] (fst ?A, snd ?A)"
  let ?C = "sync_files example_sys insertions_fail config [''Public''] [''x'', ''Public/n'']
              (zero_result, stored_world)"
  let ?P = "process_file example_sys insertions_fail config [''Public''] zero_result (snd ?A) ''Public/n''"
  have h1: "?A = (fst ?A, snd ?A)" and h2: "?B = (fst ?B, snd ?B)" by simp_all
  have z: "errorCount zero_result = 0" "successCount zero_result = 0" by code_simp+
  have failed: "errorCount (fst ?A) \<noteq> errorCount zero_result"
    using stored_failing_x z by simp
  have need: "needs_reindex example_sys ''x'' (st stored_world)" by code_simp
  have split: "[''Public/n''] = [] @ ''Public/n'' # []" by simp
  note T = failed_document_counted_once_and_sync_continues[OF h1 h2]
  note T2 = T[THEN conjunct2, THEN conjunct1, rule_format, OF failed]
  note T3 = T[THEN conjunct2, THEN conjunct2, THEN conjunct1]
  note T4 = T[THEN conjunct2, THEN conjunct2, THEN conjunct2, THEN conjunct1]
  note T5 = T[THEN conjunct2, THEN conjunct2, THEN conjunct2, THEN conjunct2, THEN conjunct1]
  note T10 = T[THEN conjunct2, THEN conjunct2, THEN conjunct2, THEN conjunct2, THEN conjunct2,
    THEN conjunct2, THEN conjunct2, THEN conjunct2, THEN conjunct2, THEN conjunct1,
    rule_format, OF split]
  have a: "errorCount (fst ?A) = errorCount zero_result + 1"
    and a2: "successCount (fst ?A) = successCount zero_result"
    and a3: "updatedCount (fst ?A) = updatedCount zero_result"
    and a4: "needs_reindex example_sys ''x'' (st (snd ?A))"
    using T2 need by blast+
  have C: "?C = ?B" using T3 by (simp only: prod.collapse)
  obtain evs where "trace (snd ?B) = trace (snd ?A) @ evs" "SelectDocument ''Public/n'' \<in> set evs"
    using T4 by auto
  then have b: "SelectDocument ''Public/n'' \<in> set (trace (snd ?C))" unfolding C by simp
  have "successCount (fst ?B) + errorCount (fst ?B) =
      successCount zero_result + errorCount zero_result + length [''x'', ''Public/n'']"
    using T5 .
  then have d: "successCount (fst ?C) + errorCount (fst ?C) = 2" unfolding C z by simp
  have ok: "fst ?P \<noteq> Thrown" using stored_after_failing_x by (rule conjunct1)
  have tr: "drop 7 (trace (snd ?P)) =
      [SelectDocument ''Public/n'', CachedRead ''Public/n'', UpdatePublic 0 True]"
    using stored_after_failing_x by (rule conjunct2)
  have nil: "sync_files example_sys insertions_fail config [''Public''] [] (fst ?A, snd ?A) = ?A"
    by (simp only: sync_files.simps prod.collapse)
  have B: "sync_file example_sys insertions_fail config [''Public''] ?A ''Public/n'' = ?B"
    by (simp only: sync_files.simps prod.collapse)
  note U = T10[unfolded nil]
  note U1 = U[THEN conjunct1]
  note U2 = U[THEN conjunct2, THEN conjunct1, rule_format, OF ok]
  have f: "snd ?C = snd ?P" using U1 unfolding C B .
  have e: "synced example_sys [''Public''] (st (snd ?C)) ''Public/n''"
    using U2[THEN conjunct1] unfolding C B .
  have "successCount (fst ?B) = successCount (fst ?A) + 1"
    using U2[THEN conjunct2, THEN conjunct1] unfolding B .
  then have g: "successCount (fst ?C) = 1" unfolding C a2 z by simp
  have t: "drop 7 (trace (snd ?C)) =
      [SelectDocument ''Public/n'', CachedRead ''Public/n'', UpdatePublic 0 True]"
    unfolding f by (rule tr)
  show ?thesis by (intro conjI a a2 a3 a4 b d e t g)
qed

subsection \<open>Moderation\<close>

text \<open>
  C5. When the search runs (the query differs from the last one and is long enough or
  forced) and the moderation endpoint flags the trimmed query, the result list is
  emptied and the error \<open>FlaggedContent\<close> is raised, an error no other path raises. The
  only calls made are the moderation call and the refresh of the suggestions: nothing
  reaches the embedding provider, the record store or the chat provider.
\<close>

theorem flagged_query_reaches_no_provider:
  assumes "trim pv query \<noteq> trim pv (searchQuery m)"
    and "length query > minLen \<or> force"
    and "moderation pv (trim pv query) = Some True"
  shows "getSuggestionsInternal pv minLen settings query force m =
           (Inl FlaggedContent,
            m\<lparr>searchQuery := query, results := [],
              calls := calls m @ [CreateModeration (trim pv query), UpdateSuggestions]\<rparr>) \<and>
         filter reaches_provider
           (drop (length (calls m)) (calls (snd (getSuggestionsInternal pv minLen settings query force m)))) = [] \<and>
         (fst (getSuggestionsInternal pv minLen settings query' force' m') = Inl FlaggedContent \<longrightarrow>
            moderation pv (trim pv query') = Some True)"
proof -
  have a: "getSuggestionsInternal pv minLen settings query force m =
           (Inl FlaggedContent,
            m\<lparr>searchQuery := query, results := [],
              calls := calls m @ [CreateModeration (trim pv query), UpdateSuggestions]\<rparr>)"
    using assms by (auto simp: getSuggestionsInternal_def Let_def)
  have c: "fst (getSuggestionsInternal pv minLen settings query' force' m') = Inl FlaggedContent \<longrightarrow>
            moderation pv (trim pv query') = Some True"
    by (auto simp: getSuggestionsInternal_def Let_def semanticSearch_def
             split: if_splits option.splits bool.splits prod.splits)
  show ?thesis using c by (simp add: a)
qed

text \<open>The flagged query, forced with Alt and Enter, on a modal that shows an earlier result.\<close>

theorem flagged_query_reaches_no_provider_witness:
  "getSuggestionsInternal example_providers 10 example_settings '' bad words '' True example_modal =
     (Inl FlaggedContent,
      example_modal\<lparr>searchQuery := '' bad words '', results := [],
        calls := calls example_modal @ [CreateModeration ''bad words'', UpdateSuggestions]\<rparr>) \<and>
   filter reaches_provider (drop (length (calls example_modal))
     (calls (snd (getSuggestionsInternal example_providers 10 example_settings '' bad words '' True
        example_modal)))) = []"
proof -
  have h1: "trim example_providers '' bad words '' \<noteq> trim example_providers (searchQuery example_modal)"
    by code_simp
  have h2: "length '' bad words '' > (10 :: nat) \<or> True" by simp
  have h3: "moderation example_providers (trim example_providers '' bad words '') = Some True"
    by code_simp
  have t: "trim example_providers '' bad words '' = ''bad words''" by code_simp
  show ?thesis
    using flagged_query_reaches_no_provider[OF h1 h2 h3, of example_settings] t by simp
qed

subsection \<open>A whole sync\<close>



lemma generateEmbeddings_unfold:
  "generateEmbeddings sy fails cfg excludeDirs publicDirs vault w =
     reconcile fails (live_files sy excludeDirs vault)
       (sync_files sy fails cfg publicDirs (live_files sy excludeDirs vault) (zero_result, w))"
  by (simp add: generateEmbeddings_def zero_result_def Let_def)



text \<open>A sync that ends without an error leaves the store in step with the live files.\<close>

lemma generateEmbeddings_clean:
  assumes run: "generateEmbeddings sy fails cfg excludeDirs publicDirs vault w = (r', w')"
    and clean: "errorCount r' = 0" and wf: "wf_store (st w)"
  shows "\<forall>p \<in> set (live_files sy excludeDirs vault). synced sy publicDirs (st w') p"
    and "\<forall>d \<in> set (documents (st w')). path d \<in> set (live_files sy excludeDirs vault)"
proof -
  let ?files = "live_files sy excludeDirs vault"
  obtain r1 w1 where pass: "sync_files sy fails cfg publicDirs ?files (zero_result, w) = (r1, w1)"
    by (cases "sync_files sy fails cfg publicDirs ?files (zero_result, w)")
  then have rec: "reconcile fails ?files (r1, w1) = (r', w')"
    using run by (simp add: generateEmbeddings_unfold)
  have "errorCount r1 \<le> errorCount r'" using reconcile_errors[OF rec] .
  then have e1: "errorCount r1 = 0" using clean by simp
  then have e0: "errorCount r1 = errorCount zero_result" by (simp add: zero_result_def)
  have s1: "\<forall>p \<in> set ?files. synced sy publicDirs (st w1) p"
    using sync_files_clean[OF pass e0 wf] .
  have e2: "errorCount r' = errorCount r1" using e1 clean by simp
  note C = reconcile_clean[OF rec e2]
  show "\<forall>p \<in> set ?files. synced sy publicDirs (st w') p"
    using s1 C(2) by (simp add: synced_def)
  show "\<forall>d \<in> set (documents (st w')). path d \<in> set ?files"
    using C(1) by simp
qed





subsection \<open>Syncing twice\<close>

text \<open>
  A pass over files that are all in sync writes nothing, whichever steps fail: a file is
  passed over, or counted as an error when its lookup or its read fails.
\<close>

lemma sync_file_synced:
  assumes "synced sy publicDirs (st w) p"
  shows "sync_file sy fails cfg publicDirs (r, w) p =
     (if fails (trace w) (SelectDocument p)
      then (r\<lparr>errorCount := errorCount r + 1\<rparr>, w\<lparr>trace := trace w @ [SelectDocument p]\<rparr>)
      else if fails (trace w @ [SelectDocument p]) (CachedRead p)
      then (r\<lparr>errorCount := errorCount r + 1\<rparr>, w\<lparr>trace := trace w @ [SelectDocument p, CachedRead p]\<rparr>)
      else (r\<lparr>successCount := successCount r + 1\<rparr>,
            w\<lparr>trace := trace w @ [SelectDocument p, CachedRead p]\<rparr>))"
proof -
  have "\<not> needs_reindex sy p (st w)"
    using assms by (auto simp: synced_def needs_reindex_def split: option.splits)
  then show ?thesis using assms by (simp add: sync_file_def process_file_unfold)
qed

lemma sync_files_synced:
  assumes "\<forall>p \<in> set ps. synced sy publicDirs (st w) p"
    and "sync_files sy fails cfg publicDirs ps (r, w) = (r', w')"
  shows "st w' = st w \<and> updatedCount r' = updatedCount r \<and> deleteCount r' = deleteCount r \<and>
         (\<exists>evs. trace w' = trace w @ evs \<and>
                errorCount r' = errorCount r + failed_count fails (trace w) evs)"
  using assms
proof (induction ps arbitrary: r w)
  case Nil
  then show ?case by simp
next
  case (Cons p ps)
  obtain r1 w1 where one: "sync_file sy fails cfg publicDirs (r, w) p = (r1, w1)"
    by (cases "sync_file sy fails cfg publicDirs (r, w) p")
  then have rest: "sync_files sy fails cfg publicDirs ps (r1, w1) = (r', w')"
    using Cons.prems(2) by simp
  have sp: "synced sy publicDirs (st w) p" using Cons.prems(1) by simp
  from sync_file_synced[OF sp, of fails cfg r] one
  obtain e1 where e1: "st w1 = st w" "updatedCount r1 = updatedCount r" "deleteCount r1 = deleteCount r"
      "trace w1 = trace w @ e1" "errorCount r1 = errorCount r + failed_count fails (trace w) e1"
    by (cases "fails (trace w) (SelectDocument p)";
        cases "fails (trace w @ [SelectDocument p]) (CachedRead p)") auto
  have "\<forall>q \<in> set ps. synced sy publicDirs (st w1) q" using Cons.prems(1) e1(1) by simp
  from Cons.IH[OF this rest] obtain e2 where e2: "st w' = st w1" "updatedCount r' = updatedCount r1"
      "deleteCount r' = deleteCount r1" "trace w' = trace w1 @ e2"
      "errorCount r' = errorCount r1 + failed_count fails (trace w1) e2"
    by auto
  show ?case using e1 e2
    by (auto simp: failed_count_append intro!: exI[of _ "e1 @ e2"])
qed

lemma delete_dangling_nothing:
  "\<forall>d \<in> set ds. path d \<in> set files \<Longrightarrow> delete_dangling fails files ds rw = rw"
  by (induction ds) auto

text \<open>
  C7. Let a sync start from a store with unique identities and end with \<open>errorCount\<close>
  zero. A second sync of the same vault, with the same file contents and the same
  excluded and public directories, writes nothing: the store is as the first sync left
  it, \<open>updatedCount\<close> and \<open>deleteCount\<close> are zero, and \<open>errorCount\<close> is the number of steps
  of the second sync that fail. When every step of it is answered, \<open>errorCount\<close> is zero
  and every live file is a success: each file is looked up and read and passed over, and
  the scan finds no dangling document.
\<close>

theorem second_sync_changes_nothing:
  assumes wf: "wf_store (st w)"
    and first: "generateEmbeddings sy fails cfg excludeDirs publicDirs vault w = (r1, w1)"
    and clean: "errorCount r1 = 0"
    and second: "generateEmbeddings sy fails2 cfg excludeDirs publicDirs vault w1 = (r2, w2)"
  shows "updatedCount r2 = 0 \<and> deleteCount r2 = 0 \<and> st w2 = st w1 \<and>
         (\<exists>evs. trace w2 = trace w1 @ evs \<and> errorCount r2 = failed_count fails2 (trace w1) evs) \<and>
         ((\<forall>tr ev. \<not> fails2 tr ev) \<longrightarrow>
            errorCount r2 = 0 \<and>
            successCount r2 = length (live_files sy excludeDirs vault) \<and>
            trace w2 = trace w1 @
              concat (map (\<lambda>p. [SelectDocument p, CachedRead p]) (live_files sy excludeDirs vault)) @
              [SelectAllDocuments])"
proof -
  let ?files = "live_files sy excludeDirs vault"
  note C = generateEmbeddings_clean[OF first clean wf]
  obtain ra wa where pass: "sync_files sy fails2 cfg publicDirs ?files (zero_result, w1) = (ra, wa)"
    by (cases "sync_files sy fails2 cfg publicDirs ?files (zero_result, w1)")
  then have rec: "reconcile fails2 ?files (ra, wa) = (r2, w2)"
    using second by (simp add: generateEmbeddings_unfold)
  from sync_files_synced[OF C(1) pass] obtain e1 where
    a: "st wa = st w1" "updatedCount ra = 0" "deleteCount ra = 0"
       "trace wa = trace w1 @ e1" "errorCount ra = failed_count fails2 (trace w1) e1"
    by (auto simp: zero_result_def)
  have nd: "\<forall>d \<in> set (documents (st wa)). path d \<in> set ?files" using C(2) a(1) by simp
  have b: "r2 = (if fails2 (trace wa) SelectAllDocuments then ra\<lparr>errorCount := errorCount ra + 1\<rparr> else ra)"
     "w2 = wa\<lparr>trace := trace wa @ [SelectAllDocuments]\<rparr>"
    using rec reconcile_effect[OF rec] delete_dangling_nothing[OF nd]
    by (auto split: if_splits)
  have general: "updatedCount r2 = 0 \<and> deleteCount r2 = 0 \<and> st w2 = st w1 \<and>
         (\<exists>evs. trace w2 = trace w1 @ evs \<and> errorCount r2 = failed_count fails2 (trace w1) evs)"
    using a b by (auto simp: failed_count_append intro!: exI[of _ "e1 @ [SelectAllDocuments]"])
  have quiet: "errorCount r2 = 0 \<and> successCount r2 = length ?files \<and>
       trace w2 = trace w1 @ concat (map (\<lambda>p. [SelectDocument p, CachedRead p]) ?files) @
         [SelectAllDocuments]"
    if answered: "\<forall>tr ev. \<not> fails2 tr ev"
  proof -
    have "(ra, wa) = (zero_result\<lparr>successCount := successCount zero_result + length ?files\<rparr>,
        w1\<lparr>trace := trace w1 @ concat (map (\<lambda>p. [SelectDocument p, CachedRead p]) ?files)\<rparr>)"
      using sync_files_skip[OF C(1) answered, of cfg zero_result] pass by simp
    then show ?thesis using b answered by (simp add: zero_result_def)
  qed
  show ?thesis using general quiet by blast
qed

lemma stored_first_sync:
  "errorCount (fst (generateEmbeddings example_sys reliable config [''Private''] [''Public'']
     [''Public/n'', ''x'', ''Private/y''] stored_world)) = 0 \<and>
   updatedCount (fst (generateEmbeddings example_sys reliable config [''Private''] [''Public'']
     [''Public/n'', ''x'', ''Private/y''] stored_world)) = 2 \<and>
   deleteCount (fst (generateEmbeddings example_sys reliable config [''Private''] [''Public'']
     [''Public/n'', ''x'', ''Private/y''] stored_world)) = 1"
  by code_simp

text \<open>
  The vault of three files synced twice into \<open>stored_world\<close>: the first sync updates two
  documents and deletes one, the second only counts the two live files.
\<close>

theorem second_sync_changes_nothing_witness:
  "updatedCount (fst (generateEmbeddings example_sys reliable config [''Private''] [''Public'']
     [''Public/n'', ''x'', ''Private/y''] stored_world)) = 2 \<and>
   updatedCount (fst (generateEmbeddings example_sys reliable config [''Private''] [''Public'']
     [''Public/n'', ''x'', ''Private/y'']
     (snd (generateEmbeddings example_sys reliable config [''Private''] [''Public'']
        [''Public/n'', ''x'', ''Private/y''] stored_world)))) = 0 \<and>
   errorCount (fst (generateEmbeddings example_sys reliable config [''Private''] [''Public'']
     [''Public/n'', ''x'', ''Private/y'']
     (snd (generateEmbeddings example_sys reliable config [''Private''] [''Public'']
        [''Public/n'', ''x'', ''Private/y''] stored_world)))) = 0 \<and>
   successCount (fst (generateEmbeddings example_sys reliable config [''Private''] [''Public'']
     [''Public/n'', ''x'', ''Private/y'']
     (snd (generateEmbeddings example_sys reliable config [''Private''] [''Public'']
        [''Public/n'', ''x'', ''Private/y''] stored_world)))) = 2 \<and>
   st (snd (generateEmbeddings example_sys reliable config [''Private''] [''Public'']
     [''Public/n'', ''x'', ''Private/y'']
     (snd (generateEmbeddings example_sys reliable config [''Private''] [''Public'']
        [''Public/n'', ''x'', ''Private/y''] stored_world)))) =
   st (snd (generateEmbeddings example_sys reliable config [''Private''] [''Public'']
        [''Public/n'', ''x'', ''Private/y''] stored_world))"
proof -
  let ?V = "[''Public/n'', ''x'', ''Private/y'']"
  let ?first = "generateEmbeddings example_sys reliable config [''Private''] [''Public''] ?V stored_world"
  let ?second = "generateEmbeddings example_sys reliable config [''Private''] [''Public''] ?V (snd ?first)"
  have wf: "wf_store (st stored_world)" by code_simp
  have h1: "?first = (fst ?first, snd ?first)" and h2: "?second = (fst ?second, snd ?second)"
    by simp_all
  have clean: "errorCount (fst ?first) = 0" using stored_first_sync by blast
  have answered: "\<forall>tr ev. \<not> reliable tr ev" by (simp add: reliable_def)
  have n: "length (live_files example_sys [''Private''] ?V) = 2" by code_simp
  note T = second_sync_changes_nothing[OF wf h1 clean h2]
  have "errorCount (fst ?second) = 0 \<and>
      successCount (fst ?second) = length (live_files example_sys [''Private''] ?V)"
    using T answered by blast
  then show ?thesis using T n stored_first_sync by simp
qed

subsection \<open>The checksum\<close>

text \<open>
  C8. The checksum compared with the stored one, and stored after a re-index, is the
  hash of the text as read from the file, front matter included; the front matter is
  extracted afterwards. With a hash that tells two texts apart, a row whose checksum is
  the hash of an earlier text of the file, whatever part of the text has changed since
  (the front matter alone, the body being the same, is one such change), has another
  checksum than the file: the file is re-indexed, its sections deleted, chunked and
  embedded anew.
\<close>

theorem checksum_covers_front_matter:
  assumes inj: "inj (sha256 sy)"
    and found: "find_document p (st w) = Some d"
    and old: "checksum d = Some (sha256 sy old_text)"
    and changed: "cachedRead sy p \<noteq> old_text"
    and sel: "\<not> fails (trace w) (SelectDocument p)"
    and rd: "\<not> fails (trace w @ [SelectDocument p]) (CachedRead p)"
    and run: "process_file sy fails cfg publicDirs r w p = (out, w')"
  shows "sha256 sy (cachedRead sy p) \<noteq> sha256 sy old_text \<and>
         needs_reindex sy p (st w) \<and>
         (\<exists>evs. trace w' = trace w @ [SelectDocument p, CachedRead p] @ evs \<and>
            prefix evs (reindex_events sy cfg publicDirs p (Some d) (next_id (st w))) \<and>
            failed_count fails (trace w @ [SelectDocument p, CachedRead p]) evs =
              (if out = Thrown then 1 else 0) \<and>
            (out \<noteq> Thrown \<longrightarrow>
               evs = [DeleteSections (doc_id d), ParseMarkdown p,
                      UpsertDocument p (reindex_meta sy p) (isFileInDirectories sy p publicDirs)] @
                     section_events sy (doc_id d) (reindex_sections sy cfg p) @
                     [UpdateChecksum (doc_id d) (sha256 sy (cachedRead sy p))] \<and>
               (\<exists>d'. find_document p (st w') = Some d' \<and>
                     checksum d' = Some (sha256 sy (cachedRead sy p)))))"
proof -
  let ?w2 = "w\<lparr>trace := trace w @ [SelectDocument p, CachedRead p]\<rparr>"
  have ne: "sha256 sy (cachedRead sy p) \<noteq> sha256 sy old_text"
    using inj changed by (auto dest: injD)
  then have need: "needs_reindex sy p (st w)"
    using found old by (simp add: needs_reindex_def)
  have re: "reindex sy fails cfg r ?w2 p (find_document p (st ?w2)) (cachedRead sy p)
        (sha256 sy (cachedRead sy p)) (isFileInDirectories sy p publicDirs) = (out, w')"
    using process_file_reindex[OF need sel rd run] .
  from reindex_effect(1)[OF re] obtain evs where
    e: "trace w' = trace w @ [SelectDocument p, CachedRead p] @ evs"
       "prefix evs (reindex_events sy cfg publicDirs p (Some d) (next_id (st w)))"
       "failed_count fails (trace w @ [SelectDocument p, CachedRead p]) evs = (if out = Thrown then 1 else 0)"
       "out \<noteq> Thrown \<longrightarrow> evs = reindex_events sy cfg publicDirs p (Some d) (next_id (st w))"
    using found by auto
  have full: "reindex_events sy cfg publicDirs p (Some d) (next_id (st w)) =
      [DeleteSections (doc_id d), ParseMarkdown p,
       UpsertDocument p (reindex_meta sy p) (isFileInDirectories sy p publicDirs)] @
      section_events sy (doc_id d) (reindex_sections sy cfg p) @
      [UpdateChecksum (doc_id d) (sha256 sy (cachedRead sy p))]"
    by (simp add: reindex_events_def reindex_target_def)
  have st: "out \<noteq> Thrown \<longrightarrow> (\<exists>d'. find_document p (st w') = Some d' \<and>
                     checksum d' = Some (sha256 sy (cachedRead sy p)))"
    using reindex_effect(4)[OF re] by auto
  show ?thesis using ne need e full st by (intro conjI exI[of _ evs]) auto
qed

lemma stored_x_completes:
  "fst (process_file example_sys reliable config [''Public''] zero_result stored_world ''x'') \<noteq> Thrown"
  by code_simp

text \<open>
  The file \<open>x\<close> of \<open>stored_world\<close>: the stored checksum is that of the text \<open>t:a|Some\<close>,
  the file now reads \<open>t:b|Some\<close>, the same body under another front matter. It is
  re-indexed in full.
\<close>

theorem checksum_covers_front_matter_witness:
  "fst (parseMarkdown example_sys ''t:a|Some'') = fst (parseMarkdown example_sys (cachedRead example_sys ''x'')) \<and>
   sha256 example_sys (cachedRead example_sys ''x'') \<noteq> sha256 example_sys ''t:a|Some'' \<and>
   needs_reindex example_sys ''x'' (st stored_world) \<and>
   drop 2 (trace (snd (process_file example_sys reliable config [''Public''] zero_result stored_world ''x''))) =
     [DeleteSections 2, ParseMarkdown ''x'', UpsertDocument ''x'' [(''t'', ''b''), (''path'', ''x'')] False,
      CreateEmbedding ''t=b;path=x;Som'', InsertSection 2 ''Som'' 14 [14],
      CreateEmbedding ''t=b;path=x;e'', InsertSection 2 ''e'' 12 [12],
      UpdateChecksum 2 ''t:b|Some'']"
proof -
  let ?d = "documents (st stored_world) ! 2"
  let ?run = "process_file example_sys reliable config [''Public''] zero_result stored_world ''x''"
  have inj: "inj (sha256 example_sys)" by (simp add: example_sys_def inj_def)
  have found: "find_document ''x'' (st stored_world) = Some ?d" by code_simp
  have old: "checksum ?d = Some (sha256 example_sys ''t:a|Some'')" by code_simp
  have changed: "cachedRead example_sys ''x'' \<noteq> ''t:a|Some''" by code_simp
  have sel: "\<not> reliable (trace stored_world) (SelectDocument ''x'')" by code_simp
  have rd: "\<not> reliable (trace stored_world @ [SelectDocument ''x'']) (CachedRead ''x'')" by code_simp
  have run: "?run = (fst ?run, snd ?run)" by simp
  have body: "fst (parseMarkdown example_sys ''t:a|Some'') =
      fst (parseMarkdown example_sys (cachedRead example_sys ''x''))" by code_simp
  note T = checksum_covers_front_matter[OF inj found old changed sel rd run]
  have a: "sha256 example_sys (cachedRead example_sys ''x'') \<noteq> sha256 example_sys ''t:a|Some''"
    and b: "needs_reindex example_sys ''x'' (st stored_world)"
    using T by blast+
  obtain evs where e: "trace (snd ?run) = trace stored_world @ [SelectDocument ''x'', CachedRead ''x''] @ evs"
    "evs = [DeleteSections (doc_id ?d), ParseMarkdown ''x'',
            UpsertDocument ''x'' (reindex_meta example_sys ''x'')
              (isFileInDirectories example_sys ''x'' [''Public''])] @
           section_events example_sys (doc_id ?d) (reindex_sections example_sys config ''x'') @
           [UpdateChecksum (doc_id ?d) (sha256 example_sys (cachedRead example_sys ''x''))]"
    using T stored_x_completes by blast
  have t0: "trace stored_world = []" by code_simp
  have v: "[DeleteSections (doc_id ?d), ParseMarkdown ''x'',
            UpsertDocument ''x'' (reindex_meta example_sys ''x'')
              (isFileInDirectories example_sys ''x'' [''Public''])] @
           section_events example_sys (doc_id ?d) (reindex_sections example_sys config ''x'') @
           [UpdateChecksum (doc_id ?d) (sha256 example_sys (cachedRead example_sys ''x''))] =
     [DeleteSections 2, ParseMarkdown ''x'', UpsertDocument ''x'' [(''t'', ''b''), (''path'', ''x'')] False,
      CreateEmbedding ''t=b;path=x;Som'', InsertSection 2 ''Som'' 14 [14],
      CreateEmbedding ''t=b;path=x;e'', InsertSection 2 ''e'' 12 [12],
      UpdateChecksum 2 ''t:b|Some'']"
    by code_simp
  have c: "drop 2 (trace (snd ?run)) =
     [DeleteSections 2, ParseMarkdown ''x'', UpsertDocument ''x'' [(''t'', ''b''), (''path'', ''x'')] False,
      CreateEmbedding ''t=b;path=x;Som'', InsertSection 2 ''Som'' 14 [14],
      CreateEmbedding ''t=b;path=x;e'', InsertSection 2 ''e'' 12 [12],
      UpdateChecksum 2 ''t:b|Some'']"
  proof -
    have "evs =
     [DeleteSections 2, ParseMarkdown ''x'', UpsertDocument ''x'' [(''t'', ''b''), (''path'', ''x'')] False,
      CreateEmbedding ''t=b;path=x;Som'', InsertSection 2 ''Som'' 14 [14],
      CreateEmbedding ''t=b;path=x;e'', InsertSection 2 ''e'' 12 [12],
      UpdateChecksum 2 ''t:b|Some'']"
      unfolding e(2) by (rule v)
    then show ?thesis using e(1) t0 by simp
  qed
  show ?thesis using a b body c by blast
qed

subsection \<open>The text that is embedded\<close>

lemma chunk_inputs_nth:
  "i < length secs \<Longrightarrow>
   chunk_inputs sy cfg fm p secs ! i = (secs ! i, chunk_input sy cfg fm p secs i)"
  by (simp add: chunk_inputs_def)

lemma chunk_inputs_fst: "map fst (chunk_inputs sy cfg fm p secs) = secs"
  by (simp add: chunk_inputs_def comp_def map_nth)

text \<open>
  The claim C9 as it is worded asks for the trailing overlap-size characters of the
  previous chunk after the header. With the chunk bounds of config.ts and an overlap of
  200, a first chunk of exactly 200 characters contributes nothing to the text embedded
  for the second chunk.
\<close>

theorem overlap_of_a_short_chunk_counterexample:
  "chunk_input example_sys (overlap_config 200) [] ''x'' [replicate 200 CHR ''a'', ''b''] 1 \<noteq>
     serialize example_sys (AList.update ''path'' ''x'' []) @
     trailing 200 (replicate 200 CHR ''a'') @ ''b''"
  by code_simp

text \<open>
  C9, amended. For every chunk after the first, when the configured overlap \<open>n\<close> is
  positive, the text embedded is the serialized front matter, in which \<open>path\<close> is the
  file's path, followed by the last \<open>n\<close> characters of the previous chunk when that chunk
  is strictly longer than \<open>n\<close> and by nothing otherwise, followed by the chunk's own text.
  Nothing of the previous chunk is sent for the first chunk, for an overlap of zero, or
  with config.ts as it is, which defines no overlap. The row of a section holds the
  chunk's own text only: when the loop completes, the contents of the rows it added are
  the chunks, while the texts embedded are those above.
\<close>

theorem embedding_input_header_overlap_chunk:
  assumes "charsFromPreviousParagraph cfg = Some n" and "0 < n" and "0 < i" and "i < length secs"
  shows "chunk_inputs sy cfg fm p secs ! i =
           (secs ! i,
            serialize sy (AList.update ''path'' p fm) @
            (if length (secs ! (i - 1)) > n then trailing n (secs ! (i - 1)) else '''') @
            secs ! i) \<and>
         map_of (AList.update ''path'' p fm) ''path'' = Some p \<and>
         previousSectionChopped cfg secs 0 = '''' \<and>
         previousSectionChopped (cfg\<lparr>charsFromPreviousParagraph := Some 0\<rparr>) secs i = '''' \<and>
         previousSectionChopped config secs i = '''' \<and>
         content (section_row sy did (chunk_inputs sy cfg fm p secs ! i)) = secs ! i \<and>
         (embed_sections sy fails did (chunk_inputs sy cfg fm p secs) w = (True, w') \<longrightarrow>
            map content (sections (st w')) = map content (sections (st w)) @ secs \<and>
            trace w' = trace w @ section_events sy did (chunk_inputs sy cfg fm p secs))"
proof -
  have a: "chunk_inputs sy cfg fm p secs ! i =
           (secs ! i,
            serialize sy (AList.update ''path'' p fm) @
            (if length (secs ! (i - 1)) > n then trailing n (secs ! (i - 1)) else '''') @
            secs ! i)"
    using assms
    by (simp add: chunk_inputs_nth chunk_input_def createChunkContext_def
          previousSectionChopped_def trailing_def Let_def)
  have b: "map_of (AList.update ''path'' p fm) ''path'' = Some p"
    by (simp add: update_conv')
  have c: "previousSectionChopped cfg secs 0 = ''''"
    "previousSectionChopped (cfg\<lparr>charsFromPreviousParagraph := Some 0\<rparr>) secs i = ''''"
    "previousSectionChopped config secs i = ''''"
    by (simp_all add: previousSectionChopped_def config_def split: option.splits)
  have d: "content (section_row sy did (chunk_inputs sy cfg fm p secs ! i)) = secs ! i"
    using assms(4) by (simp add: chunk_inputs_nth section_row_def)
  have e: "map content (sections (st w')) = map content (sections (st w)) @ secs \<and>
            trace w' = trace w @ section_events sy did (chunk_inputs sy cfg fm p secs)"
    if run: "embed_sections sy fails did (chunk_inputs sy cfg fm p secs) w = (True, w')"
  proof -
    from embed_sections_effect[OF run] have
      s: "sections (st w') = sections (st w) @ map (section_row sy did) (chunk_inputs sy cfg fm p secs)"
      and t: "trace w' = trace w @ section_events sy did (chunk_inputs sy cfg fm p secs)"
      by auto
    have "map content (map (section_row sy did) (chunk_inputs sy cfg fm p secs)) =
          map fst (chunk_inputs sy cfg fm p secs)"
      by (simp add: section_row_def comp_def)
    then show ?thesis using s t by (simp add: chunk_inputs_fst)
  qed
  show ?thesis using a b c d e by blast
qed

text \<open>
  The chunks \<open>Som\<close> and \<open>e\<close> of the file \<open>x\<close> with an overlap of two: the text embedded
  for the second chunk carries the last two characters of the first, the row does not.
\<close>

theorem embedding_input_header_overlap_chunk_witness:
  "chunk_inputs example_sys (overlap_config 2) [(''t'', ''b'')] ''x'' [''Som'', ''e''] ! 1 =
     (''e'', ''t=b;path=x;'' @ ''om'' @ ''e'') \<and>
   content (section_row example_sys 2
     (chunk_inputs example_sys (overlap_config 2) [(''t'', ''b'')] ''x'' [''Som'', ''e''] ! 1)) = ''e'' \<and>
   map content (sections (st (snd (embed_sections example_sys reliable 2
     (chunk_inputs example_sys (overlap_config 2) [(''t'', ''b'')] ''x'' [''Som'', ''e''])
     empty_world)))) = [''Som'', ''e''] \<and>
   trace (snd (embed_sections example_sys reliable 2
     (chunk_inputs example_sys (overlap_config 2) [(''t'', ''b'')] ''x'' [''Som'', ''e''])
     empty_world)) =
     [CreateEmbedding ''t=b;path=x;Som'', InsertSection 2 ''Som'' 14 [14],
      CreateEmbedding ''t=b;path=x;ome'', InsertSection 2 ''e'' 14 [14]]"
proof -
  let ?secs = "[''Som'', ''e'']"
  let ?xs = "chunk_inputs example_sys (overlap_config 2) [(''t'', ''b'')] ''x'' ?secs"
  let ?run = "embed_sections example_sys reliable 2 ?xs empty_world"
  have h1: "charsFromPreviousParagraph (overlap_config 2) = Some 2" by code_simp
  have h2: "(0::nat) < 2" and h3: "(0::nat) < 1" and h4: "1 < length ?secs" by simp_all
  have ok: "fst ?run = True" by code_simp
  then have run: "?run = (True, snd ?run)" by (metis prod.collapse)
  have hdr: "serialize example_sys (AList.update ''path'' ''x'' [(''t'', ''b'')]) = ''t=b;path=x;''"
    by code_simp
  have tail: "(if length (?secs ! (1 - 1)) > 2 then trailing 2 (?secs ! (1 - 1)) else '''') = ''om''"
    by code_simp
  have e0: "map content (sections (st empty_world)) = []" "trace empty_world = []" by code_simp+
  have ev: "section_events example_sys 2 ?xs =
     [CreateEmbedding ''t=b;path=x;Som'', InsertSection 2 ''Som'' 14 [14],
      CreateEmbedding ''t=b;path=x;ome'', InsertSection 2 ''e'' 14 [14]]"
    by code_simp
  note T = embedding_input_header_overlap_chunk[OF h1 h2 h3 h4, where sy = example_sys
      and fm = "[(''t'', ''b'')]" and p = "''x''" and did = 2 and fails = reliable
      and w = empty_world and w' = "snd ?run"]
  have a: "?xs ! 1 = (?secs ! 1, serialize example_sys (AList.update ''path'' ''x'' [(''t'', ''b'')]) @
      (if length (?secs ! (1 - 1)) > 2 then trailing 2 (?secs ! (1 - 1)) else '''') @ ?secs ! 1)"
    using T by blast
  have b: "content (section_row example_sys 2 (?xs ! 1)) = ?secs ! 1" using T by blast
  have c: "map content (sections (st (snd ?run))) = map content (sections (st empty_world)) @ ?secs"
    and d: "trace (snd ?run) = trace empty_world @ section_events example_sys 2 ?xs"
    using T run by blast+
  have a': "?xs ! 1 = (''e'', ''t=b;path=x;'' @ ''om'' @ ''e'')"
    unfolding a hdr tail by simp
  show ?thesis using a' b c d e0 ev by simp
qed

end
